theory Spec2Isabelle
  imports Main "HOL-Library.Word"
begin

unbundle bit_operations_syntax

text \<open>
  A model of \<^verbatim>\<open>src/Client.cc\<close>, the client of a tunnel that carries many TCP connections
  over one reliable-UDP (KCP) session: the frame codec (\<^verbatim>\<open>readKcpMsg\<close>,
  \<^verbatim>\<open>handleIncomingTCPMesasge\<close>, \<^verbatim>\<open>sendKcpCloseMsg\<close>), the connection table
  (\<^verbatim>\<open>listenerCallback\<close>, \<^verbatim>\<open>addConnection\<close>, \<^verbatim>\<open>removeConnection\<close>), the handshake
  (\<^verbatim>\<open>sendInitKCPConvPkg\<close>, \<^verbatim>\<open>checkInitKCP\<close>, \<^verbatim>\<open>recvInitKCPConvPkg\<close>) and the shutdown
  (\<^verbatim>\<open>stop\<close>). Each function of the source is one function here, which takes the client
  and returns the changed client. Log statements are left out.
\<close>

section \<open>Bytes and little-endian fields\<close>

text \<open>
  \<^verbatim>\<open>Client.cc\<close> writes and reads every multi-byte field through a cast pointer
  (\<^verbatim>\<open>*(uint16_t *)p\<close>, \<^verbatim>\<open>*(uint32_t *)p\<close>). The wire format is little-endian, which is
  what those casts give on the hosts the program is built for; the model fixes that byte
  order.
\<close>

type_synonym byte = "8 word"
type_synonym u16 = "16 word"
type_synonym u32 = "32 word"

definition le16 :: "u16 \<Rightarrow> byte list" where
  "le16 w = [ucast w, ucast (drop_bit 8 w)]"

definition u16_of :: "byte \<Rightarrow> byte \<Rightarrow> u16" where
  "u16_of lo hi = ucast lo OR push_bit 8 (ucast hi)"

definition le32 :: "u32 \<Rightarrow> byte list" where
  "le32 w = [ucast w, ucast (drop_bit 8 w), ucast (drop_bit 16 w), ucast (drop_bit 24 w)]"

definition u32_of :: "byte \<Rightarrow> byte \<Rightarrow> byte \<Rightarrow> byte \<Rightarrow> u32" where
  "u32_of b0 b1 b2 b3 =
     ucast b0 OR push_bit 8 (ucast b1) OR push_bit 16 (ucast b2) OR push_bit 24 (ucast b3)"

text \<open>
  A read at offset \<open>k\<close> of the \<^verbatim>\<open>std::string\<close> \<open>msg\<close>. The offsets below the size give the
  bytes of the message and the offset of the size gives the terminating zero. The source
  also reads further out when the length field of a control frame is too small: the
  program does not stop there, it takes the byte it finds. Nothing in the program
  determines that byte: \<open>stray j\<close> is the byte found \<open>j\<close> places behind the terminator.
\<close>

definition str_at :: "(nat \<Rightarrow> byte) \<Rightarrow> byte list \<Rightarrow> nat \<Rightarrow> byte" where
  "str_at stray msg k =
     (if k < length msg then msg ! k
      else if k = length msg then 0
      else stray (k - Suc (length msg)))"

text \<open>\<^verbatim>\<open>size_t\<close> subtraction, 64 bits wide: it wraps instead of going negative.\<close>

definition size_t_sub :: "nat \<Rightarrow> nat \<Rightarrow> nat" where
  "size_t_sub a b = nat ((int a - int b) mod 2 ^ 64)"

section \<open>Constants\<close>

text \<open>
  Modelled from the spec: \<^verbatim>\<open>Client.h\<close>, which defines these three macros, is not among the
  sources. The values are the ones of the frame layouts in the comments of \<^verbatim>\<open>Client.cc\<close>
  (\<^verbatim>\<open>| len(2) | 0x0000(2) | 0x01 | connIdx(2) |\<close> and \<^verbatim>\<open>| len(2) | 0x0000(2) | 0x02(1) |\<close>)
  and of the table of control frames in the specification.
\<close>

definition KCP_MSG_CONNIDX_NONE :: u16 where
  "KCP_MSG_CONNIDX_NONE = 0"

definition KCP_MSG_TYPE_CLOSE_CONN :: byte where
  "KCP_MSG_TYPE_CLOSE_CONN = 1"

definition KCP_MSG_TYPE_KEEPALIVE :: byte where
  "KCP_MSG_TYPE_KEEPALIVE = 2"

definition UINT16_MAX :: nat where
  "UINT16_MAX = 65535"

section \<open>State\<close>

text \<open>
  Places where the C++ leaves the defined language. The program has no error value of
  its own for them; the model stops there instead of inventing a result.
  \<^item> \<open>UseAfterFree\<close>: a \<^verbatim>\<open>ClientTCPSession\<close> is used after \<^verbatim>\<open>delete\<close>;
  \<^item> \<open>InvalidIterator\<close>: a \<^verbatim>\<open>std::map\<close> iterator is advanced after its element was erased;
  \<^item> \<open>AssertionFailed\<close>: an \<^verbatim>\<open>assert\<close> does not hold.
\<close>

datatype fault = UseAfterFree | InvalidIterator | AssertionFailed

type_synonym sptr = nat

text \<open>
  A \<^verbatim>\<open>ClientTCPSession\<close> object: its index, its socket, the timeouts installed by
  \<^verbatim>\<open>setTimeout\<close> (\<open>None\<close> for a direction without timeout) and the bytes handed to
  \<^verbatim>\<open>bufferevent_write\<close> so far.
\<close>

record ClientTCPSession =
  session_connIdx :: u16
  session_fd :: int
  session_timeouts :: "int option \<times> int option"
  bev_output :: "byte list"

text \<open>
  The \<^verbatim>\<open>Client\<close> object with what its methods touch outside it (member names are
  written without the trailing underscore of the source):
  \<^item> \<open>conns\<close> is the \<^verbatim>\<open>std::map<uint16_t, ClientTCPSession *>\<close>, kept as the list of its
    entries in key order;
  \<^item> \<open>heap\<close> holds the session objects made by \<^verbatim>\<open>new\<close> and not yet deleted, \<open>heap_next\<close>
    is the next address \<^verbatim>\<open>new\<close> returns;
  \<^item> \<open>static_connIdx\<close> and \<open>static_startTime\<close> are the function-local statics of
    \<^verbatim>\<open>listenerCallback\<close> and \<^verbatim>\<open>checkInitKCP\<close>;
  \<^item> \<open>kcp_sent\<close> lists the messages given to \<^verbatim>\<open>ikcp_send\<close>, \<open>kcp_updates\<close> counts the calls
    of \<^verbatim>\<open>ikcp_update\<close>, \<open>udp_sent\<close> lists the datagrams given to \<^verbatim>\<open>sendto\<close> directly;
  \<^item> \<open>listener_enabled\<close>, \<open>exitEvTimer\<close> (the delay in seconds of the armed timer),
    \<open>loopexit_called\<close> and \<open>loopbreak_called\<close> record the calls into the event library;
  \<^item> \<open>stray_bytes\<close> is what a read behind the terminator of a message finds (see
    \<open>str_at\<close>). No theorem assumes anything about it.
  The reliable-UDP engine itself is external: \<^verbatim>\<open>ikcp_send\<close> is taken to accept every
  message (all messages built here are at most 65535 bytes long).
\<close>

record Client =
  running :: bool
  isInitKCPConv :: bool
  kcpConv :: u32
  tcpReadTimeout :: int
  tcpWriteTimeout :: int
  kcpInBuf :: "byte list"
  conns :: "(u16 \<times> sptr) list"
  heap :: "sptr \<rightharpoonup> ClientTCPSession"
  heap_next :: sptr
  static_connIdx :: u16
  static_startTime :: "int option"
  listener_enabled :: bool
  exitEvTimer :: "nat option"
  loopexit_called :: bool
  loopbreak_called :: bool
  kcp_sent :: "byte list list"
  kcp_updates :: nat
  udp_sent :: "byte list list"
  stray_bytes :: "nat \<Rightarrow> byte"

text \<open>
  The constructor \<^verbatim>\<open>Client::Client\<close>. The conversation id is \<^verbatim>\<open>time(nullptr)\<close> cast to 32
  bits, a parameter here. The two statics have their initialisers: the counter of
  \<^verbatim>\<open>listenerCallback\<close> starts at 1, the start time of \<^verbatim>\<open>checkInitKCP\<close> is set by its first
  call. The bytes behind a message are not the constructor's; the clients built here have
  zeros there, and the theorems that are not about one of these clients hold for every
  client, whatever these bytes are.
\<close>

definition new_Client :: "u32 \<Rightarrow> int \<Rightarrow> int \<Rightarrow> Client" where
  "new_Client conv readTimeout writeTimeout =
     \<lparr>running = True, isInitKCPConv = False, kcpConv = conv,
      tcpReadTimeout = readTimeout, tcpWriteTimeout = writeTimeout,
      kcpInBuf = [], conns = [], heap = Map.empty, heap_next = 0,
      static_connIdx = 1, static_startTime = None,
      listener_enabled = True, exitEvTimer = None,
      loopexit_called = False, loopbreak_called = False,
      kcp_sent = [], kcp_updates = 0, udp_sent = [], stray_bytes = (\<lambda>j. 0)\<rparr>"

subsection \<open>The operations of \<^verbatim>\<open>std::map\<close> that the client uses\<close>

fun map_insert :: "u16 \<Rightarrow> 'v \<Rightarrow> (u16 \<times> 'v) list \<Rightarrow> (u16 \<times> 'v) list" where
  "map_insert k v [] = [(k, v)]"
| "map_insert k v ((k', v') # m) =
     (if k = k' then (k', v') # m
      else if k < k' then (k, v) # (k', v') # m
      else (k', v') # map_insert k v m)"

definition map_erase :: "u16 \<Rightarrow> (u16 \<times> 'v) list \<Rightarrow> (u16 \<times> 'v) list" where
  "map_erase k m = filter (\<lambda>e. fst e \<noteq> k) m"

definition map_find :: "(u16 \<times> 'v) list \<Rightarrow> u16 \<Rightarrow> 'v option" where
  "map_find m k = map_of m k"

section \<open>Sending through the engine\<close>

definition kcpUpdateManually :: "Client \<Rightarrow> Client" where
  "kcpUpdateManually c = c\<lparr>kcp_updates := Suc (kcp_updates c)\<rparr>"

text \<open>
  \<^verbatim>\<open>sendKcpMsg\<close> hands the message to \<^verbatim>\<open>ikcp_send\<close> and then runs the engine at once
  (\<^verbatim>\<open>kcpUpdateManually\<close>). The branch for a negative result of \<^verbatim>\<open>ikcp_send\<close>, marked
  \<^verbatim>\<open>should not happen\<close> in the source, is not taken.
\<close>

definition sendKcpMsg :: "Client \<Rightarrow> byte list \<Rightarrow> Client" where
  "sendKcpMsg c msg = kcpUpdateManually (c\<lparr>kcp_sent := kcp_sent c @ [msg]\<rparr>)"

text \<open>The seven bytes that \<^verbatim>\<open>sendKcpCloseMsg\<close> builds before it sends them.\<close>

definition kcpMsg_closeConn :: "u16 \<Rightarrow> byte list" where
  "kcpMsg_closeConn connIdx =
     le16 (of_nat (2 + 2 + 1 + 2)) @ le16 KCP_MSG_CONNIDX_NONE
     @ [KCP_MSG_TYPE_CLOSE_CONN] @ le16 connIdx"

definition sendKcpCloseMsg :: "Client \<Rightarrow> u16 \<Rightarrow> Client" where
  "sendKcpCloseMsg c connIdx = sendKcpMsg c (kcpMsg_closeConn connIdx)"

definition kcpKeepAlive :: "Client \<Rightarrow> Client" where
  "kcpKeepAlive c =
     sendKcpMsg c (le16 (of_nat 5) @ le16 KCP_MSG_CONNIDX_NONE @ [KCP_MSG_TYPE_KEEPALIVE])"

section \<open>The connection table\<close>

text \<open>
  \<^verbatim>\<open>ClientTCPSession::ClientTCPSession\<close> and \<^verbatim>\<open>setTimeout\<close>: a timeout that is not positive
  is not installed.
\<close>

definition new_ClientTCPSession :: "u16 \<Rightarrow> int \<Rightarrow> ClientTCPSession" where
  "new_ClientTCPSession connIdx fd =
     \<lparr>session_connIdx = connIdx, session_fd = fd, session_timeouts = (None, None),
      bev_output = []\<rparr>"

definition setTimeout :: "ClientTCPSession \<Rightarrow> int \<Rightarrow> int \<Rightarrow> ClientTCPSession" where
  "setTimeout s readTimeout writeTimeout =
     s\<lparr>session_timeouts := (if readTimeout > 0 then Some readTimeout else None,
                             if writeTimeout > 0 then Some writeTimeout else None)\<rparr>"

text \<open>\<^verbatim>\<open>std::map::insert\<close> keeps the old entry when the key is already there.\<close>

definition addConnection :: "Client \<Rightarrow> sptr \<Rightarrow> fault + Client" where
  "addConnection c session =
     (case heap c session of
        None \<Rightarrow> Inl UseAfterFree
      | Some s \<Rightarrow>
          let s' = setTimeout s (tcpReadTimeout c) (tcpWriteTimeout c)
          in Inr (c\<lparr>heap := (heap c)(session \<mapsto> s'),
                    conns := map_insert (session_connIdx s') session (conns c)\<rparr>))"

text \<open>
  \<^verbatim>\<open>listenerCallback\<close>: the static counter is a \<^verbatim>\<open>uint16_t\<close>, so \<^verbatim>\<open>connIdx++\<close> wraps from
  65535 to 0. The index issued is the value of the counter after the increment.
\<close>

definition listenerCallback :: "Client \<Rightarrow> int \<Rightarrow> fault + Client" where
  "listenerCallback c fd =
     (let connIdx = static_connIdx c + 1;
          c1 = c\<lparr>static_connIdx := connIdx\<rparr>;
          csession = heap_next c1;
          c2 = c1\<lparr>heap := (heap c1)(csession \<mapsto> new_ClientTCPSession connIdx fd),
                  heap_next := Suc csession\<rparr>
      in addConnection c2 csession)"

text \<open>A run of accepted connections, one call of the listener callback for each.\<close>

fun accepts :: "Client \<Rightarrow> int list \<Rightarrow> fault + Client" where
  "accepts c [] = Inr c"
| "accepts c (fd # fds) =
     (case listenerCallback c fd of Inl f \<Rightarrow> Inl f | Inr c' \<Rightarrow> accepts c' fds)"

text \<open>
  \<^verbatim>\<open>removeConnection\<close> reads \<^verbatim>\<open>session->connIdx_\<close>, erases that key and deletes the
  object. It has no check that the session is still alive.
\<close>

definition removeConnection :: "Client \<Rightarrow> sptr \<Rightarrow> bool \<Rightarrow> fault + Client" where
  "removeConnection c session isNeedSendCloseMsg =
     (case heap c session of
        None \<Rightarrow> Inl UseAfterFree
      | Some s \<Rightarrow>
          let c1 = (if isNeedSendCloseMsg then sendKcpCloseMsg c (session_connIdx s) else c);
              c2 = c1\<lparr>conns := map_erase (session_connIdx s) (conns c1)\<rparr>
          in Inr (c2\<lparr>heap := (heap c2)(session := None)\<rparr>))"

section \<open>Inbound frames\<close>

text \<open>
  \<^verbatim>\<open>ClientTCPSession::sendData\<close>: \<open>data\<close> are the bytes of the message from the pointer on,
  \<open>len\<close> the count given to \<^verbatim>\<open>bufferevent_write\<close>. The count is larger than what the
  message holds only when the subtraction in \<^verbatim>\<open>readKcpMsg\<close> has wrapped around; it is then
  at least \<open>2^64 - 4\<close>, a size that no buffer takes: \<^verbatim>\<open>bufferevent_write\<close> fails, nothing is
  written, and \<^verbatim>\<open>sendData\<close> goes on without looking at the result.
\<close>

definition sendData :: "Client \<Rightarrow> sptr \<Rightarrow> byte list \<Rightarrow> nat \<Rightarrow> fault + Client" where
  "sendData c session data len =
     (case heap c session of
        None \<Rightarrow> Inl UseAfterFree
      | Some s \<Rightarrow>
          if length data < len then Inr c
          else Inr (c\<lparr>heap := (heap c)(session \<mapsto> s\<lparr>bev_output := bev_output s @ take len data\<rparr>)\<rparr>))"

definition handleKcpMsg :: "Client \<Rightarrow> u16 \<Rightarrow> byte list \<Rightarrow> nat \<Rightarrow> fault + Client" where
  "handleKcpMsg c connIdx data len =
     (case map_find (conns c) connIdx of
        None \<Rightarrow> Inr (sendKcpCloseMsg c connIdx)
      | Some csession \<Rightarrow> sendData c csession data len)"

definition handleKcpMsg_closeConn :: "Client \<Rightarrow> byte list \<Rightarrow> fault + Client" where
  "handleKcpMsg_closeConn c msg =
     (let connIdx = u16_of (str_at (stray_bytes c) msg 5) (str_at (stray_bytes c) msg 6) in
      case map_find (conns c) connIdx of
        None \<Rightarrow> Inr c
      | Some session \<Rightarrow> removeConnection c session False)"

text \<open>
  \<^verbatim>\<open>readKcpMsg\<close>: the result \<open>Inr (False, c)\<close> is the \<^verbatim>\<open>return false\<close> of the source (the
  message is not complete yet), \<open>Inr (True, c')\<close> its \<^verbatim>\<open>return true\<close>.
\<close>

definition readKcpMsg :: "Client \<Rightarrow> fault + bool \<times> Client" where
  "readKcpMsg c =
     (let evBufLen = length (kcpInBuf c) in
      if evBufLen < 4 then Inr (False, c)
      else
        let buf = take 4 (kcpInBuf c);
            msglen = u16_of (buf ! 0) (buf ! 1)
        in
        if evBufLen < unat msglen then Inr (False, c)
        else
          let connIdx = u16_of (buf ! 2) (buf ! 3);
              msg = take (unat msglen) (kcpInBuf c);
              c1 = c\<lparr>kcpInBuf := drop (unat msglen) (kcpInBuf c)\<rparr>
          in
          if connIdx = KCP_MSG_CONNIDX_NONE then
            (let type = str_at (stray_bytes c) msg 4 in
             if type = KCP_MSG_TYPE_CLOSE_CONN
             then map_sum id (Pair True) (handleKcpMsg_closeConn c1 msg)
             else Inr (True, c1))
          else
            map_sum id (Pair True)
              (handleKcpMsg c1 connIdx (drop 4 msg) (size_t_sub (length msg) 4)))"

text \<open>
  The loop \<^verbatim>\<open>while (readKcpMsg()) {}\<close> of \<^verbatim>\<open>handleIncomingUDPMesasge\<close>. \<open>None\<close> is a loop
  that does not come to an end.
\<close>

partial_function (option) readKcpMsg_loop :: "Client \<Rightarrow> (fault + Client) option" where
  "readKcpMsg_loop c =
     (case readKcpMsg c of
        Inl f \<Rightarrow> Some (Inl f)
      | Inr r \<Rightarrow> if fst r then readKcpMsg_loop (snd r) else Some (Inr (snd r)))"

section \<open>Outbound data frames\<close>

text \<open>
  The frame that the body of the loop in \<^verbatim>\<open>handleIncomingTCPMesasge\<close> builds for one
  slice: the size of the whole frame cast to 16 bits, the index, the slice.
\<close>

definition kcpMsg_data :: "u16 \<Rightarrow> byte list \<Rightarrow> byte list" where
  "kcpMsg_data connIdx content = le16 (of_nat (4 + length content)) @ le16 connIdx @ content"

definition maxMsgLen :: nat where
  "maxMsgLen = UINT16_MAX - 4"

function handleIncomingTCPMesasge :: "Client \<Rightarrow> sptr \<Rightarrow> byte list \<Rightarrow> fault + Client" where
  "handleIncomingTCPMesasge c session msg =
     (if length msg > 0 then
        (let len = min maxMsgLen (length msg) in
         if \<not> len < UINT16_MAX then Inl AssertionFailed
         else if \<not> 4 + len \<le> UINT16_MAX then Inl AssertionFailed
         else
           (case heap c session of
              None \<Rightarrow> Inl UseAfterFree
            | Some s \<Rightarrow>
                handleIncomingTCPMesasge
                  (sendKcpMsg c (kcpMsg_data (session_connIdx s) (take len msg)))
                  session (drop len msg)))
      else Inr c)"
  by pat_completeness auto
termination
  by (relation "measure (\<lambda>(c, session, msg). length msg)")
     (auto simp: maxMsgLen_def UINT16_MAX_def)

section \<open>Handshake\<close>

text \<open>The twelve bytes that \<^verbatim>\<open>sendInitKCPConvPkg\<close> writes for conversation id \<open>conv\<close>.\<close>

definition initKCPConvPkg :: "u32 \<Rightarrow> byte list" where
  "initKCPConvPkg conv = le32 0 @ le32 conv @ le32 (conv + 1)"

definition sendInitKCPConvPkg :: "Client \<Rightarrow> Client" where
  "sendInitKCPConvPkg c = c\<lparr>udp_sent := udp_sent c @ [initKCPConvPkg (kcpConv c)]\<rparr>"

definition exitLoop :: "Client \<Rightarrow> Client" where
  "exitLoop c = c\<lparr>loopexit_called := True\<rparr>"

text \<open>
  \<^verbatim>\<open>checkInitKCP\<close> is the callback of the one-second timer that \<^verbatim>\<open>setup\<close> arms; \<open>now\<close> is
  what \<^verbatim>\<open>time(nullptr)\<close> returns in this call. The static \<^verbatim>\<open>startTime\<close> is initialised by
  the first call.
\<close>

definition checkInitKCP :: "Client \<Rightarrow> int \<Rightarrow> Client" where
  "checkInitKCP c now =
     (let startTime = (case static_startTime c of None \<Rightarrow> now | Some t \<Rightarrow> t);
          c0 = c\<lparr>static_startTime := Some startTime\<rparr>
      in if isInitKCPConv c0 then c0\<lparr>loopbreak_called := True\<rparr>
         else if now > startTime + 10 then exitLoop (c0\<lparr>running := False\<rparr>)
         else sendInitKCPConvPkg c0)"

text \<open>\<^verbatim>\<open>recvInitKCPConvPkg\<close> reads three 32-bit fields from a datagram of twelve bytes.\<close>

definition recvInitKCPConvPkg :: "Client \<Rightarrow> byte list \<Rightarrow> bool \<times> Client" where
  "recvInitKCPConvPkg c p =
     (if u32_of (p ! 0) (p ! 1) (p ! 2) (p ! 3) = 0 \<and>
         u32_of (p ! 4) (p ! 5) (p ! 6) (p ! 7) = kcpConv c \<and>
         u32_of (p ! 8) (p ! 9) (p ! 10) (p ! 11) = kcpConv c + 1
      then (True, c\<lparr>isInitKCPConv := True\<rparr>)
      else (False, c))"

section \<open>Inbound datagrams\<close>

text \<open>
  \<^verbatim>\<open>handleIncomingUDPMesasge\<close>. The engine is external, so what it answers is given:
  \<open>ikcp_input_res\<close> is the result of \<^verbatim>\<open>ikcp_input\<close> for this datagram and \<open>ikcp_recv_data\<close>
  the chunks that the calls of \<^verbatim>\<open>ikcp_recv\<close> return before the first negative result.
\<close>

definition handleIncomingUDPMesasge ::
  "Client \<Rightarrow> byte list \<Rightarrow> int \<Rightarrow> byte list list \<Rightarrow> (fault + Client) option" where
  "handleIncomingUDPMesasge c inData ikcp_input_res ikcp_recv_data =
     (if length inData = 12 \<and> fst (recvInitKCPConvPkg c inData)
      then Some (Inr (snd (recvInitKCPConvPkg c inData)))
      else if ikcp_input_res < 0 then Some (Inr c)
      else
        (case readKcpMsg_loop (c\<lparr>kcpInBuf := kcpInBuf c @ concat ikcp_recv_data\<rparr>) of
           None \<Rightarrow> None
         | Some (Inl f) \<Rightarrow> Some (Inl f)
         | Some (Inr c') \<Rightarrow> Some (Inr (kcpUpdateManually c'))))"

section \<open>Shutdown\<close>

text \<open>
  The range-based \<^verbatim>\<open>for\<close> of \<^verbatim>\<open>stop\<close> walks \<^verbatim>\<open>conns_\<close> with an iterator: \<open>map_begin\<close> is
  \<^verbatim>\<open>begin()\<close>, \<open>map_next\<close> the increment, \<open>None\<close> is \<^verbatim>\<open>end()\<close>. An iterator is the key of
  the element it points to. Erasing an element of a \<^verbatim>\<open>std::map\<close> invalidates the
  iterators that point to it, and the body of the loop erases through
  \<^verbatim>\<open>removeConnection\<close>; the increment of an iterator whose element is gone is the fault
  \<open>InvalidIterator\<close>.
\<close>

definition map_begin :: "(u16 \<times> 'v) list \<Rightarrow> u16 option" where
  "map_begin m = (case m of [] \<Rightarrow> None | e # _ \<Rightarrow> Some (fst e))"

definition map_next :: "(u16 \<times> 'v) list \<Rightarrow> u16 \<Rightarrow> u16 option" where
  "map_next m k = (case filter (\<lambda>e. k < fst e) m of [] \<Rightarrow> None | e # _ \<Rightarrow> Some (fst e))"

function stop_loop :: "u16 option \<Rightarrow> Client \<Rightarrow> fault + Client" where
  "stop_loop it c =
     (case it of
        None \<Rightarrow> Inr c
      | Some k \<Rightarrow>
          (case map_find (conns c) k of
             None \<Rightarrow> Inl InvalidIterator
           | Some session \<Rightarrow>
               (case removeConnection c session True of
                  Inl f \<Rightarrow> Inl f
                | Inr c' \<Rightarrow>
                    if map_find (conns c') k = None then Inl InvalidIterator
                    else stop_loop (map_next (conns c') k) c')))"
  by pat_completeness auto
termination
proof (relation "measure (\<lambda>(it, c).
    case it of None \<Rightarrow> 0 | Some k \<Rightarrow> length (filter (\<lambda>e. k \<le> fst e) (conns c)))")
  show "wf (measure (\<lambda>(it, c).
    case it of None \<Rightarrow> 0 | Some k \<Rightarrow> length (filter (\<lambda>e. k \<le> fst e) (conns c))))"
    by simp
next
  fix it :: "u16 option" and c c' :: Client and k :: u16 and session :: sptr
  assume it: "it = Some k" and f: "map_find (conns c) k = Some session"
    and r: "removeConnection c session True = Inr c'"
  obtain j where j: "conns c' = map_erase j (conns c)"
    using r
    by (auto simp: removeConnection_def sendKcpCloseMsg_def sendKcpMsg_def
          kcpUpdateManually_def Let_def split: option.splits)
  have mem: "(k, session) \<in> set (conns c)"
    using f by (simp add: map_find_def map_of_SomeD)
  show "((map_next (conns c') k, c'), (it, c)) \<in> measure (\<lambda>(it, c).
    case it of None \<Rightarrow> 0 | Some k \<Rightarrow> length (filter (\<lambda>e. k \<le> fst e) (conns c)))"
  proof (cases "map_next (conns c') k")
    case None
    have "(k, session) \<in> set (filter (\<lambda>e. k \<le> fst e) (conns c))"
      using mem by simp
    then have "filter (\<lambda>e. k \<le> fst e) (conns c) \<noteq> []"
      by (metis empty_iff list.set(1))
    then show ?thesis using None it by simp
  next
    case (Some k2)
    then obtain e es where "filter (\<lambda>e. k < fst e) (conns c') = e # es" and "k2 = fst e"
      by (auto simp: map_next_def split: list.splits)
    then have lt: "k < k2"
      using Cons_eq_filterD [of e es "\<lambda>e. k < fst e" "conns c'"] by auto
    have "filter (\<lambda>e. k2 \<le> fst e) (conns c')
            = filter (\<lambda>e. fst e \<noteq> j) (filter (\<lambda>e. k2 \<le> fst e) (conns c))"
      unfolding j map_erase_def filter_filter by (rule filter_cong) auto
    then have "length (filter (\<lambda>e. k2 \<le> fst e) (conns c'))
            \<le> length (filter (\<lambda>e. k2 \<le> fst e) (conns c))"
      using length_filter_le [of "\<lambda>e. fst e \<noteq> j" "filter (\<lambda>e. k2 \<le> fst e) (conns c)"]
      by (simp only:)
    moreover have "filter (\<lambda>e. k2 \<le> fst e) (conns c)
            = filter (\<lambda>e. k2 \<le> fst e) (filter (\<lambda>e. k \<le> fst e) (conns c))"
      unfolding filter_filter using lt by (intro filter_cong) auto
    moreover have "length (filter (\<lambda>e. k2 \<le> fst e) (filter (\<lambda>e. k \<le> fst e) (conns c)))
            < length (filter (\<lambda>e. k \<le> fst e) (conns c))"
      using lt mem by (intro length_filter_less [of "(k, session)"]) auto
    ultimately show ?thesis using Some it by simp
  qed
qed

text \<open>
  \<^verbatim>\<open>stop\<close>; the timer it arms calls \<^verbatim>\<open>cb_exitLoop\<close>, that is \<^verbatim>\<open>exitLoop\<close>, after three
  seconds.
\<close>

definition stop :: "Client \<Rightarrow> fault + Client" where
  "stop c =
     (if \<not> running c then Inr c
      else
        let c1 = c\<lparr>running := False\<rparr>;
            c2 = c1\<lparr>listener_enabled := False\<rparr>
        in case stop_loop (map_begin (conns c2)) c2 of
             Inl f \<Rightarrow> Inl f
           | Inr c3 \<Rightarrow> Inr (c3\<lparr>exitEvTimer := Some 3\<rparr>))"

definition cb_exitLoop :: "Client \<Rightarrow> Client" where
  "cb_exitLoop c = exitLoop c"

section \<open>Notions used to state the properties\<close>

text \<open>
  The two header fields of the frame at the head of the reassembly buffer, read as
  \<^verbatim>\<open>readKcpMsg\<close> reads them, and the test it makes before it removes a frame.
\<close>

definition frame_len :: "byte list \<Rightarrow> nat" where
  "frame_len buf = unat (u16_of (buf ! 0) (buf ! 1))"

definition frame_connIdx :: "byte list \<Rightarrow> u16" where
  "frame_connIdx buf = u16_of (buf ! 2) (buf ! 3)"

definition frame_complete :: "byte list \<Rightarrow> bool" where
  "frame_complete buf \<longleftrightarrow> 4 \<le> length buf \<and> frame_len buf \<le> length buf"

text \<open>
  The frames that the decode loop will find at the head of the buffer, one after the
  other, as long as they are complete, all have a length field other than 0.
\<close>

function frames_nonzero :: "byte list \<Rightarrow> bool" where
  "frames_nonzero buf =
     (if \<not> frame_complete buf then True
      else if frame_len buf = 0 then False
      else frames_nonzero (drop (frame_len buf) buf))"
  by pat_completeness auto
termination
  by (relation "measure length") (auto simp: frame_complete_def)

text \<open>Every entry of the table points to a session object that has not been deleted.\<close>

definition conns_live :: "Client \<Rightarrow> bool" where
  "conns_live c \<longleftrightarrow> list_all (\<lambda>e. heap c (snd e) \<noteq> None) (conns c)"

text \<open>
  The invariant of the table and the heap: every entry points to a live session that
  carries the key as its index, and no object lives at or above the next address.
\<close>

definition table_inv :: "Client \<Rightarrow> bool" where
  "table_inv c \<longleftrightarrow>
     list_all (\<lambda>e. case heap c (snd e) of None \<Rightarrow> False | Some s \<Rightarrow> session_connIdx s = fst e) (conns c)
     \<and> (\<forall>p. heap_next c \<le> p \<longrightarrow> heap c p = None)"

text \<open>
  A client with conversation id \<open>0x12345678\<close> after one accepted connection on socket 7:
  the session has index 2 and lives at address 0.
\<close>

definition example_client :: Client where
  "example_client =
     (new_Client 0x12345678 0 0)
       \<lparr>conns := [(2, 0)], heap := [0 \<mapsto> new_ClientTCPSession 2 7], heap_next := 1,
        static_connIdx := 2\<rparr>"

text \<open>
  The client of the shutdown scenario, with the indices 2, 3 and 5 live: four connections
  were accepted on the sockets 7 to 10 and the third one (index 4) was closed locally.
\<close>

definition example_client_235 :: Client where
  "example_client_235 =
     (new_Client 0x12345678 0 0)
       \<lparr>conns := [(2, 0), (3, 1), (5, 3)],
        heap := [0 \<mapsto> new_ClientTCPSession 2 7, 1 \<mapsto> new_ClientTCPSession 3 8,
                 3 \<mapsto> new_ClientTCPSession 5 10],
        heap_next := 4, static_connIdx := 5,
        kcp_sent := [kcpMsg_closeConn 4], kcp_updates := 1\<rparr>"

section \<open>Basic facts\<close>

declare handleIncomingTCPMesasge.simps [simp del]
declare stop_loop.simps [simp del]
declare frames_nonzero.simps [simp del]

lemma byte_no_high_bit [simp]: "8 \<le> k \<Longrightarrow> \<not> bit (a :: byte) k"
  using bit_imp_le_length [of a k] by auto

lemma u16_of_le16_bytes: "u16_of (ucast w) (ucast (drop_bit 8 w)) = w"
  unfolding u16_of_def
  by (rule bit_word_eqI) (auto simp: bit_simps)

lemma le16_u16_of: "le16 (u16_of a b) = [a, b]"
  unfolding u16_of_def le16_def
  by (auto intro!: bit_word_eqI simp: bit_simps)

lemma length_le16 [simp]: "length (le16 w) = 2"
  by (simp add: le16_def)

lemma example_client_accept:
  "listenerCallback (new_Client 0x12345678 0 0) 7 = Inr (example_client)"
  by (simp add: listenerCallback_def example_client_def new_Client_def addConnection_def Let_def
       setTimeout_def new_ClientTCPSession_def)

lemma u16_of_le16 [simp]: "u16_of (le16 w ! 0) (le16 w ! Suc 0) = w"
  by (simp add: le16_def u16_of_le16_bytes)

lemma nth_kcpMsg_data:
  "kcpMsg_data i b ! 0 = le16 (of_nat (4 + length b)) ! 0"
  "kcpMsg_data i b ! Suc 0 = le16 (of_nat (4 + length b)) ! Suc 0"
  "kcpMsg_data i b ! 2 = le16 i ! 0"
  "kcpMsg_data i b ! 3 = le16 i ! Suc 0"
  by (simp_all add: kcpMsg_data_def le16_def)

lemma length_kcpMsg_data [simp]: "length (kcpMsg_data i b) = 4 + length b"
  by (simp add: kcpMsg_data_def)

lemma frame_len_kcpMsg_data:
  "length b \<le> 65531 \<Longrightarrow> frame_len (kcpMsg_data i b) = 4 + length b"
  by (simp add: frame_len_def nth_kcpMsg_data unat_of_nat del: of_nat_add)

lemma frame_connIdx_kcpMsg_data: "frame_connIdx (kcpMsg_data i b) = i"
  by (simp add: frame_connIdx_def nth_kcpMsg_data)

lemma size_t_sub_ge: "b \<le> a \<Longrightarrow> a < 2 ^ 64 \<Longrightarrow> size_t_sub a b = a - b"
  unfolding size_t_sub_def
  by (simp add: nat_diff_distrib' flip: of_nat_diff) 

lemma readKcpMsg_unfold:
  "readKcpMsg c =
     (if \<not> frame_complete (kcpInBuf c) then Inr (False, c)
      else
        let n = frame_len (kcpInBuf c);
            msg = take n (kcpInBuf c);
            c1 = c\<lparr>kcpInBuf := drop n (kcpInBuf c)\<rparr>
        in if frame_connIdx (kcpInBuf c) = KCP_MSG_CONNIDX_NONE then
            (let type = str_at (stray_bytes c) msg 4 in
             if type = KCP_MSG_TYPE_CLOSE_CONN
             then map_sum id (Pair True) (handleKcpMsg_closeConn c1 msg)
             else Inr (True, c1))
          else
            map_sum id (Pair True)
              (handleKcpMsg c1 (frame_connIdx (kcpInBuf c)) (drop 4 msg) (size_t_sub (length msg) 4)))"
  by (auto simp: readKcpMsg_def frame_complete_def frame_len_def frame_connIdx_def Let_def)

text \<open>The handlers of inbound frames leave the reassembly buffer alone.\<close>

lemma removeConnection_kcpInBuf:
  "removeConnection c p b = Inr c' \<Longrightarrow> kcpInBuf c' = kcpInBuf c"
  by (auto simp: removeConnection_def sendKcpCloseMsg_def sendKcpMsg_def kcpUpdateManually_def Let_def
      split: option.splits if_splits)

lemma handleKcpMsg_kcpInBuf:
  "handleKcpMsg c i d n = Inr c' \<Longrightarrow> kcpInBuf c' = kcpInBuf c"
  by (auto simp: handleKcpMsg_def sendData_def sendKcpCloseMsg_def sendKcpMsg_def kcpUpdateManually_def
      split: option.splits if_splits)

lemma handleKcpMsg_closeConn_kcpInBuf:
  "handleKcpMsg_closeConn c m = Inr c' \<Longrightarrow> kcpInBuf c' = kcpInBuf c"
  by (auto simp: handleKcpMsg_closeConn_def Let_def dest: removeConnection_kcpInBuf
      split: option.splits if_splits)

lemma readKcpMsg_need_more_iff:
  "readKcpMsg c = Inr (False, c') \<longleftrightarrow> c' = c \<and> \<not> frame_complete (kcpInBuf c)"
  by (auto simp: readKcpMsg_unfold Let_def map_sum_def split: option.splits sum.splits)

lemma readKcpMsg_True_consumes:
  "readKcpMsg c = Inr (True, c') \<Longrightarrow>
     frame_complete (kcpInBuf c) \<and> kcpInBuf c' = drop (frame_len (kcpInBuf c)) (kcpInBuf c)"
  by (auto simp: readKcpMsg_unfold Let_def map_sum_def 
      dest: handleKcpMsg_kcpInBuf handleKcpMsg_closeConn_kcpInBuf
      split: option.splits sum.splits if_splits)

text \<open>
  A step that returns true shortens the buffer by the length field of the frame, which
  is a strict decrease unless that field is 0.
\<close>

lemma readKcpMsg_True_length:
  "readKcpMsg c = Inr (True, c') \<Longrightarrow>
     length (kcpInBuf c') = length (kcpInBuf c) - frame_len (kcpInBuf c)"
  by (drule readKcpMsg_True_consumes) simp

lemma readKcpMsg_True_decreases:
  "readKcpMsg c = Inr (True, c') \<Longrightarrow> 0 < frame_len (kcpInBuf c) \<Longrightarrow>
     length (kcpInBuf c') < length (kcpInBuf c)"
  by (drule readKcpMsg_True_consumes) (auto simp: frame_complete_def)

lemma map_find_live:
  "conns_live c \<Longrightarrow> map_find (conns c) i = Some p \<Longrightarrow> \<exists>s. heap c p = Some s"
  unfolding conns_live_def map_find_def list_all_iff
  by (auto dest!: map_of_SomeD)

lemma handleKcpMsg_defined:
  "conns_live c \<Longrightarrow> \<exists>c'. handleKcpMsg c i d n = Inr c'"
  by (auto simp: handleKcpMsg_def sendData_def dest: map_find_live split: option.splits)

lemma handleKcpMsg_closeConn_defined:
  "conns_live c \<Longrightarrow> \<exists>c'. handleKcpMsg_closeConn c m = Inr c'"
  by (auto simp: handleKcpMsg_closeConn_def removeConnection_def Let_def
       dest: map_find_live split: option.splits)

lemma readKcpMsg_succeeds:
  assumes "frame_complete (kcpInBuf c)" and "conns_live c"
  shows "\<exists>c'. readKcpMsg c = Inr (True, c')"
proof -
  let ?n = "frame_len (kcpInBuf c)"
  let ?msg = "take ?n (kcpInBuf c)"
  let ?c1 = "c\<lparr>kcpInBuf := drop ?n (kcpInBuf c)\<rparr>"
  have live: "conns_live ?c1"
    using assms(2) by (simp add: conns_live_def)
  obtain c' where h: "handleKcpMsg ?c1 (frame_connIdx (kcpInBuf c)) (drop 4 ?msg)
                        (size_t_sub (length ?msg) 4) = Inr c'"
    using handleKcpMsg_defined [OF live] by blast
  obtain c'' where cc: "handleKcpMsg_closeConn ?c1 ?msg = Inr c''"
    using handleKcpMsg_closeConn_defined [OF live] by blast
  show ?thesis
    using assms(1) h cc by (simp add: readKcpMsg_unfold Let_def)
qed

lemma zero_frame_step:
  assumes "kcpInBuf c = [0, 0, 5, 0]" and "conns c = []"
  shows "readKcpMsg c = Inr (True, sendKcpCloseMsg c 5)"
  using assms
  by (cases c) (simp add: readKcpMsg_def u16_of_def KCP_MSG_CONNIDX_NONE_def handleKcpMsg_def
        map_find_def size_t_sub_def)

lemma zero_frame_loop:
  assumes "readKcpMsg_loop c = Some r"
  shows "\<not> (kcpInBuf c = [0, 0, 5, 0] \<and> conns c = [])"
proof (rule readKcpMsg_loop.raw_induct
    [where P = "\<lambda>c r. \<not> (kcpInBuf c = [0, 0, 5, 0] \<and> conns c = [])", OF _ assms])
  fix loop :: "Client \<Rightarrow> (fault + Client) option" and c r
  assume IH: "\<And>x y. loop x = Some y \<Longrightarrow> \<not> (kcpInBuf x = [0, 0, 5, 0] \<and> conns x = [])"
    and step: "(case readKcpMsg c of Inl f \<Rightarrow> Some (Inl f)
                | Inr r \<Rightarrow> if fst r then loop (snd r) else Some (Inr (snd r))) = Some r"
  show "\<not> (kcpInBuf c = [0, 0, 5, 0] \<and> conns c = [])"
  proof
    assume a: "kcpInBuf c = [0, 0, 5, 0] \<and> conns c = []"
    then have "readKcpMsg c = Inr (True, sendKcpCloseMsg c 5)"
      by (simp add: zero_frame_step)
    with step have "loop (sendKcpCloseMsg c 5) = Some r"
      by simp
    from IH [OF this] a show False
      by (simp add: sendKcpCloseMsg_def sendKcpMsg_def kcpUpdateManually_def)
  qed
qed

text \<open>
  The decode loop comes to an end on every buffer in which no frame it gets to has the
  length field 0.
\<close>

lemma readKcpMsg_loop_returns:
  assumes "frames_nonzero (kcpInBuf c)"
  shows "\<exists>r. readKcpMsg_loop c = Some r"
  using assms
proof (induction "length (kcpInBuf c)" arbitrary: c rule: less_induct)
  case less
  show ?case
  proof (cases "readKcpMsg c")
    case (Inl f)
    then show ?thesis by (subst readKcpMsg_loop.simps) simp
  next
    case (Inr br)
    obtain b c' where br: "br = (b, c')" by (cases br)
    show ?thesis
    proof (cases b)
      case False
      then show ?thesis using Inr br by (subst readKcpMsg_loop.simps) simp
    next
      case True
      then have r: "readKcpMsg c = Inr (True, c')" using Inr br by simp
      from readKcpMsg_True_consumes [OF r]
      have fc: "frame_complete (kcpInBuf c)"
        and d: "kcpInBuf c' = drop (frame_len (kcpInBuf c)) (kcpInBuf c)" by simp_all
      have nz: "0 < frame_len (kcpInBuf c)" and fn: "frames_nonzero (kcpInBuf c')"
        using less.prems fc d by (subst (asm) frames_nonzero.simps; simp split: if_splits)+
      have "length (kcpInBuf c') < length (kcpInBuf c)"
        using r nz by (rule readKcpMsg_True_decreases)
      from less.hyps [OF this fn] show ?thesis
        using r by (subst readKcpMsg_loop.simps) simp
    qed
  qed
qed

lemma example_frame: "kcpMsg_data 2 [0x77, 0x6f] = [6, 0, 2, 0, 0x77, 0x6f]"
  by (simp add: kcpMsg_data_def le16_def)

section \<open>The frame codec\<close>

text \<open>
  Claim C1. A data frame built for index \<open>i \<noteq> 0\<close> and a slice \<open>b\<close> of at most 65531 bytes,
  alone in the reassembly buffer, is decoded by one call of \<^verbatim>\<open>readKcpMsg\<close>: the call
  returns true, the buffer is empty afterwards, and \<^verbatim>\<open>handleKcpMsg\<close> receives exactly the
  index \<open>i\<close> and the bytes \<open>b\<close>. With a session at \<open>i\<close> the bytes \<open>b\<close> are appended to its
  output; with none a CLOSE_CONN for \<open>i\<close> is sent back.
\<close>

theorem data_frame_roundtrip:
  assumes "length b \<le> 65531" and "i \<noteq> KCP_MSG_CONNIDX_NONE"
  shows "readKcpMsg (c\<lparr>kcpInBuf := kcpMsg_data i b\<rparr>)
           = map_sum id (Pair True) (handleKcpMsg (c\<lparr>kcpInBuf := []\<rparr>) i b (length b))
         \<and> (\<forall>p s. map_find (conns c) i = Some p \<and> heap c p = Some s \<longrightarrow>
               readKcpMsg (c\<lparr>kcpInBuf := kcpMsg_data i b\<rparr>)
                 = Inr (True, c\<lparr>kcpInBuf := [],
                         heap := (heap c)(p \<mapsto> s\<lparr>bev_output := bev_output s @ b\<rparr>)\<rparr>))
         \<and> (map_find (conns c) i = None \<longrightarrow>
               readKcpMsg (c\<lparr>kcpInBuf := kcpMsg_data i b\<rparr>)
                 = Inr (True, sendKcpCloseMsg (c\<lparr>kcpInBuf := []\<rparr>) i))"
proof -
  have n: "frame_len (kcpMsg_data i b) = 4 + length b"
    using assms(1) by (rule frame_len_kcpMsg_data)
  have d: "drop 4 (kcpMsg_data i b) = b"
    by (simp add: kcpMsg_data_def)
  have s: "size_t_sub (4 + length b) 4 = length b"
    using assms(1) by (simp add: size_t_sub_ge)
  have eq: "readKcpMsg (c\<lparr>kcpInBuf := kcpMsg_data i b\<rparr>)
           = map_sum id (Pair True) (handleKcpMsg (c\<lparr>kcpInBuf := []\<rparr>) i b (length b))"
    using assms(2)
    by (simp add: readKcpMsg_unfold frame_complete_def n d s frame_connIdx_kcpMsg_data)
  show ?thesis
    unfolding eq by (simp add: handleKcpMsg_def sendData_def)
qed

text \<open>
  Witness for C1: the frame \<open>06 00 02 00 77 6f\<close> for the session with index 2 of the
  example client.
\<close>

theorem data_frame_roundtrip_witness:
  "length [0x77, 0x6f :: byte] \<le> 65531 \<and> (2 :: u16) \<noteq> KCP_MSG_CONNIDX_NONE \<and>
   map_find (conns example_client) 2 = Some 0 \<and>
   heap example_client 0 = Some (new_ClientTCPSession 2 7) \<and>
   readKcpMsg (example_client\<lparr>kcpInBuf := [6, 0, 2, 0, 0x77, 0x6f]\<rparr>)
     = Inr (True, example_client\<lparr>kcpInBuf := [],
             heap := (heap example_client)(0 \<mapsto> (new_ClientTCPSession 2 7)\<lparr>bev_output := [0x77, 0x6f]\<rparr>)\<rparr>)"
proof -
  have h: "length [0x77, 0x6f :: byte] \<le> 65531" "(2 :: u16) \<noteq> KCP_MSG_CONNIDX_NONE"
    by (simp_all add: KCP_MSG_CONNIDX_NONE_def)
  have t: "map_find (conns example_client) 2 = Some 0"
     "heap example_client 0 = Some (new_ClientTCPSession 2 7)"
    by (simp_all add: example_client_def new_Client_def map_find_def)
  have o: "bev_output (new_ClientTCPSession 2 7) = []"
    by (simp add: new_ClientTCPSession_def)
  show ?thesis
    using data_frame_roundtrip [OF h, of example_client, THEN conjunct2, THEN conjunct1,
        rule_format, of 0 "new_ClientTCPSession 2 7"] h t
    by (simp add: example_frame o)
qed

text \<open>
  Claim C2. In a client whose table entries point to live sessions, whatever the
  reassembly buffer holds: if at least 4 bytes and at least \<open>len\<close> bytes are buffered,
  \<^verbatim>\<open>readKcpMsg\<close> returns true and exactly the first \<open>len\<close> bytes have left the buffer; in
  every other case it returns false and the client, its buffer included, is unchanged.
  So the step returns true if and only if the frame at the head is complete, and it
  never removes bytes without returning true.
\<close>

theorem readKcpMsg_decode_step:
  assumes "conns_live c"
  shows "(if frame_complete (kcpInBuf c)
          then \<exists>c'. readKcpMsg c = Inr (True, c') \<and>
                 kcpInBuf c' = drop (frame_len (kcpInBuf c)) (kcpInBuf c)
          else readKcpMsg c = Inr (False, c))
       \<and> ((\<exists>c'. readKcpMsg c = Inr (True, c')) \<longleftrightarrow> frame_complete (kcpInBuf c))
       \<and> (\<forall>c'. readKcpMsg c = Inr (False, c') \<longleftrightarrow> c' = c \<and> \<not> frame_complete (kcpInBuf c))
       \<and> (frame_complete (kcpInBuf c) \<longleftrightarrow>
            4 \<le> length (kcpInBuf c) \<and>
            unat (u16_of (kcpInBuf c ! 0) (kcpInBuf c ! 1)) \<le> length (kcpInBuf c))"
proof -
  have a: "\<exists>c'. readKcpMsg c = Inr (True, c') \<and>
                 kcpInBuf c' = drop (frame_len (kcpInBuf c)) (kcpInBuf c)"
    if "frame_complete (kcpInBuf c)"
    using readKcpMsg_succeeds [OF that assms] readKcpMsg_True_consumes [of c] by blast
  have b: "readKcpMsg c = Inr (False, c)" if "\<not> frame_complete (kcpInBuf c)"
    using that readKcpMsg_need_more_iff [of c c] by simp
  have c: "(\<exists>c'. readKcpMsg c = Inr (True, c')) \<longleftrightarrow> frame_complete (kcpInBuf c)"
    using a readKcpMsg_True_consumes [of c] by blast
  have d: "\<forall>c'. readKcpMsg c = Inr (False, c') \<longleftrightarrow> c' = c \<and> \<not> frame_complete (kcpInBuf c)"
    using readKcpMsg_need_more_iff [of c] by blast
  have e: "frame_complete (kcpInBuf c) \<longleftrightarrow>
            4 \<le> length (kcpInBuf c) \<and>
            unat (u16_of (kcpInBuf c ! 0) (kcpInBuf c ! 1)) \<le> length (kcpInBuf c)"
    by (simp add: frame_complete_def frame_len_def)
  have i: "if frame_complete (kcpInBuf c)
          then \<exists>c'. readKcpMsg c = Inr (True, c') \<and>
                 kcpInBuf c' = drop (frame_len (kcpInBuf c)) (kcpInBuf c)
          else readKcpMsg c = Inr (False, c)"
  proof (cases "frame_complete (kcpInBuf c)")
    case True
    with a [OF True] show ?thesis by (simp only: if_True)
  next
    case False
    with b [OF False] show ?thesis by (simp only: if_False)
  qed
  from i c d e show ?thesis
    by (intro conjI)
qed

text \<open>
  Witness for C2: the example client with the frame \<open>06 00 02 00 77 6f\<close> and one more
  byte in the buffer (the step returns true and leaves that byte), with the three bytes
  \<open>06 00 02\<close> (the step returns false and changes nothing), and with the four bytes
  \<open>00 00 00 00\<close>, a control frame with the length field 0 (the step returns true and
  removes no byte).
\<close>

theorem readKcpMsg_decode_step_witness:
  "conns_live example_client \<and>
   frame_complete [6, 0, 2, 0, 0x77, 0x6f, 9] \<and>
   frame_len [6, 0, 2, 0, 0x77, 0x6f, 9] = 6 \<and>
   readKcpMsg (example_client\<lparr>kcpInBuf := [6, 0, 2, 0, 0x77, 0x6f, 9]\<rparr>)
     = Inr (True, example_client\<lparr>kcpInBuf := [9],
             heap := (heap example_client)(0 \<mapsto> (new_ClientTCPSession 2 7)\<lparr>bev_output := [0x77, 0x6f]\<rparr>)\<rparr>) \<and>
   \<not> frame_complete [6, 0, 2] \<and>
   readKcpMsg (example_client\<lparr>kcpInBuf := [6, 0, 2]\<rparr>)
     = Inr (False, example_client\<lparr>kcpInBuf := [6, 0, 2]\<rparr>) \<and>
   frame_complete [0, 0, 0, 0] \<and>
   readKcpMsg (example_client\<lparr>kcpInBuf := [0, 0, 0, 0]\<rparr>)
     = Inr (True, example_client\<lparr>kcpInBuf := [0, 0, 0, 0]\<rparr>)"
proof -
  let ?c = "example_client\<lparr>kcpInBuf := [6, 0, 2, 0, 0x77, 0x6f, 9]\<rparr>"
  let ?d = "example_client\<lparr>kcpInBuf := [6, 0, 2]\<rparr>"
  let ?z = "example_client\<lparr>kcpInBuf := [0, 0, 0, 0]\<rparr>"
  have live: "conns_live example_client"
    by (simp add: conns_live_def example_client_def new_Client_def)
  then have lv: "conns_live ?c" "conns_live ?d" "conns_live ?z"
    by (simp_all add: conns_live_def)
  have fl: "frame_len [6, 0, 2, 0, 0x77, 0x6f, 9] = 6" "frame_connIdx [6, 0, 2, 0, 0x77, 0x6f, 9] = 2"
    "frame_len [0, 0, 0, 0] = 0" "frame_connIdx [0, 0, 0, 0] = 0"
    by (simp_all add: frame_len_def frame_connIdx_def u16_of_def)
  have fc: "frame_complete [6, 0, 2, 0, 0x77, 0x6f, 9]" "\<not> frame_complete [6, 0, 2]"
    "frame_complete [0, 0, 0, 0]"
    by (simp_all add: frame_complete_def fl)
  have r: "readKcpMsg ?c = Inr (True, example_client\<lparr>kcpInBuf := [9],
             heap := (heap example_client)(0 \<mapsto> (new_ClientTCPSession 2 7)\<lparr>bev_output := [0x77, 0x6f]\<rparr>)\<rparr>)"
    by (simp add: readKcpMsg_unfold fc fl KCP_MSG_CONNIDX_NONE_def handleKcpMsg_def sendData_def
          map_find_def example_client_def new_Client_def new_ClientTCPSession_def size_t_sub_def)
  have z: "readKcpMsg ?z = Inr (True, ?z)"
    by (simp add: readKcpMsg_unfold fc fl KCP_MSG_CONNIDX_NONE_def KCP_MSG_TYPE_CLOSE_CONN_def
          str_at_def example_client_def new_Client_def)
  have "readKcpMsg ?d = Inr (False, ?d)"
    using readKcpMsg_decode_step [OF lv(2)] fc by simp
  then show ?thesis
    using readKcpMsg_decode_step [OF lv(1)] r z live fc fl by simp
qed

text \<open>
  Claim C3 at the buffer \<open>00 00 05 00\<close> of a client without connections: the length
  field is 0, yet \<^verbatim>\<open>readKcpMsg\<close> returns true, takes the frame for a data frame for index
  5 and answers with a CLOSE_CONN for index 5. No error is raised and the buffer keeps
  its four bytes.
\<close>

theorem short_frame_not_rejected:
  "readKcpMsg ((new_Client conv rt wt)\<lparr>kcpInBuf := [0, 0, 5, 0]\<rparr>)
     = Inr (True, sendKcpCloseMsg ((new_Client conv rt wt)\<lparr>kcpInBuf := [0, 0, 5, 0]\<rparr>) 5)"
  by (simp add: readKcpMsg_def u16_of_def KCP_MSG_CONNIDX_NONE_def handleKcpMsg_def
        map_find_def new_Client_def size_t_sub_def)

text \<open>
  Claim C10 at the same buffer: the step returns true and leaves all four bytes in the
  buffer, so the number of buffered bytes does not decrease, and the loop
  \<^verbatim>\<open>while (readKcpMsg()) {}\<close> does not come to an end.
\<close>

theorem decode_loop_diverges:
  "readKcpMsg ((new_Client conv rt wt)\<lparr>kcpInBuf := [0, 0, 5, 0]\<rparr>)
     = Inr (True, sendKcpCloseMsg ((new_Client conv rt wt)\<lparr>kcpInBuf := [0, 0, 5, 0]\<rparr>) 5)
   \<and> kcpInBuf (sendKcpCloseMsg ((new_Client conv rt wt)\<lparr>kcpInBuf := [0, 0, 5, 0]\<rparr>) 5)
       = [0, 0, 5, 0]
   \<and> readKcpMsg_loop ((new_Client conv rt wt)\<lparr>kcpInBuf := [0, 0, 5, 0]\<rparr>) = None"
proof -
  let ?c = "(new_Client conv rt wt)\<lparr>kcpInBuf := [0, 0, 5, 0]\<rparr>"
  have c: "kcpInBuf ?c = [0, 0, 5, 0]" "conns ?c = []"
    by (simp_all add: new_Client_def)
  have "readKcpMsg_loop ?c = None"
    using zero_frame_loop [of ?c] c by (cases "readKcpMsg_loop ?c") auto
  moreover have "kcpInBuf (sendKcpCloseMsg ?c 5) = [0, 0, 5, 0]"
    by (simp add: sendKcpCloseMsg_def sendKcpMsg_def kcpUpdateManually_def)
  ultimately show ?thesis
    using zero_frame_step [OF c] by simp
qed

section \<open>Closing connections\<close>

lemma map_find_map_erase: "map_find (map_erase k m) k = None"
  by (induction m) (auto simp: map_find_def map_erase_def)

lemma map_find_map_erase_other: "k' \<noteq> k \<Longrightarrow> map_find (map_erase k m) k' = map_find m k'"
  by (induction m) (auto simp: map_find_def map_erase_def)

lemma str_at_closeConn:
  "str_at stray (kcpMsg_closeConn i) 4 = KCP_MSG_TYPE_CLOSE_CONN"
  "str_at stray (kcpMsg_closeConn i) 5 = le16 i ! 0"
  "str_at stray (kcpMsg_closeConn i) 6 = le16 i ! Suc 0"
  by (simp_all add: str_at_def kcpMsg_closeConn_def nth_append le16_def)

lemma length_kcpMsg_closeConn [simp]: "length (kcpMsg_closeConn i) = 7"
  by (simp add: kcpMsg_closeConn_def)

lemma frame_closeConn:
  "frame_len (kcpMsg_closeConn i @ rest) = 7"
  "frame_connIdx (kcpMsg_closeConn i @ rest) = KCP_MSG_CONNIDX_NONE"
  by (simp_all add: frame_len_def frame_connIdx_def kcpMsg_closeConn_def le16_def u16_of_def
        KCP_MSG_CONNIDX_NONE_def)

lemma handleKcpMsg_closeConn_frame:
  "handleKcpMsg_closeConn c (kcpMsg_closeConn i) =
     (case map_find (conns c) i of
        None \<Rightarrow> Inr c
      | Some session \<Rightarrow> removeConnection c session False)"
  by (simp add: handleKcpMsg_closeConn_def str_at_closeConn Let_def)

lemma readKcpMsg_closeConn_frame:
  "readKcpMsg (c\<lparr>kcpInBuf := kcpMsg_closeConn i @ rest\<rparr>) =
     map_sum id (Pair True) (handleKcpMsg_closeConn (c\<lparr>kcpInBuf := rest\<rparr>) (kcpMsg_closeConn i))"
  by (simp add: readKcpMsg_unfold frame_complete_def frame_closeConn str_at_closeConn)

text \<open>
  Claim C6. A CLOSE_CONN control frame for index \<open>i\<close> arrives (it is at the head of the
  reassembly buffer, or is handed to \<^verbatim>\<open>handleKcpMsg_closeConn\<close>). If \<open>i\<close> is not in the
  table the frame is dropped: the client is as before but for the consumed frame. If \<open>i\<close>
  is in the table, the session object is deleted and the entry erased; nothing is sent
  (\<open>kcp_sent\<close> is the same in the resulting client), and \<open>i\<close> is no longer found.
\<close>

theorem remote_close:
  "(map_find (conns c) i = None \<longrightarrow>
      handleKcpMsg_closeConn c (kcpMsg_closeConn i) = Inr c \<and>
      readKcpMsg (c\<lparr>kcpInBuf := kcpMsg_closeConn i @ rest\<rparr>) = Inr (True, c\<lparr>kcpInBuf := rest\<rparr>))
   \<and> (map_find (conns c) i = Some p \<and> heap c p = Some s \<and> session_connIdx s = i \<longrightarrow>
      handleKcpMsg_closeConn c (kcpMsg_closeConn i)
        = Inr (c\<lparr>conns := map_erase i (conns c), heap := (heap c)(p := None)\<rparr>) \<and>
      readKcpMsg (c\<lparr>kcpInBuf := kcpMsg_closeConn i @ rest\<rparr>)
        = Inr (True, c\<lparr>kcpInBuf := rest, conns := map_erase i (conns c),
                       heap := (heap c)(p := None)\<rparr>) \<and>
      map_find (map_erase i (conns c)) i = None)"
  by (simp add: readKcpMsg_closeConn_frame handleKcpMsg_closeConn_frame removeConnection_def
        map_find_map_erase)

lemma example_closeConn: "kcpMsg_closeConn 2 = [7, 0, 0, 0, 1, 2, 0]"
  by (simp add: kcpMsg_closeConn_def le16_def KCP_MSG_CONNIDX_NONE_def KCP_MSG_TYPE_CLOSE_CONN_def)

text \<open>
  Witness for C6: the frame \<open>07 00 00 00 01 02 00\<close> closes the session with index 2 of
  the example client, and the frame \<open>07 00 00 00 01 09 00\<close> for the unknown index 9 changes
  nothing.
\<close>

theorem remote_close_witness:
  "map_find (conns example_client) 2 = Some 0 \<and>
   heap example_client 0 = Some (new_ClientTCPSession 2 7) \<and>
   session_connIdx (new_ClientTCPSession 2 7) = 2 \<and>
   map_find (conns example_client) 9 = None \<and>
   readKcpMsg (example_client\<lparr>kcpInBuf := [7, 0, 0, 0, 1, 2, 0]\<rparr>)
     = Inr (True, example_client\<lparr>kcpInBuf := [], conns := [], heap := Map.empty\<rparr>) \<and>
   readKcpMsg (example_client\<lparr>kcpInBuf := [7, 0, 0, 0, 1, 9, 0]\<rparr>)
     = Inr (True, example_client\<lparr>kcpInBuf := []\<rparr>)"
proof -
  have t: "map_find (conns example_client) 2 = Some 0"
    "heap example_client 0 = Some (new_ClientTCPSession 2 7)"
    "session_connIdx (new_ClientTCPSession 2 7) = 2"
    "map_find (conns example_client) 9 = None"
    by (simp_all add: example_client_def new_Client_def map_find_def new_ClientTCPSession_def)
  have e: "map_erase 2 (conns example_client) = []" "(heap example_client)(0 := None) = Map.empty"
    by (simp_all add: example_client_def new_Client_def map_erase_def)
  have f: "kcpMsg_closeConn 9 = [7, 0, 0, 0, 1, 9, 0]"
    by (simp add: kcpMsg_closeConn_def le16_def KCP_MSG_CONNIDX_NONE_def KCP_MSG_TYPE_CLOSE_CONN_def)
  show ?thesis
    using remote_close [of example_client 2 "[]" 0 "new_ClientTCPSession 2 7"]
      remote_close [of example_client 9 "[]"] t
    by (simp add: e f example_closeConn)
qed



section \<open>Chunking of TCP input\<close>

lemma tcp_nil: "handleIncomingTCPMesasge c p [] = Inr c"
  by (subst handleIncomingTCPMesasge.simps) simp

lemma tcp_asserts:
  "min maxMsgLen n < UINT16_MAX" "4 + min maxMsgLen n \<le> UINT16_MAX"
  by (simp_all add: maxMsgLen_def UINT16_MAX_def)

lemma tcp_step:
  assumes "msg \<noteq> []" and "heap c p = Some s"
  shows "handleIncomingTCPMesasge c p msg =
     handleIncomingTCPMesasge
       (sendKcpMsg c (kcpMsg_data (session_connIdx s) (take (min maxMsgLen (length msg)) msg)))
       p (drop (min maxMsgLen (length msg)) msg)"
  by (subst handleIncomingTCPMesasge.simps) (simp add: assms tcp_asserts Let_def)

lemma heap_sendKcpMsg [simp]: "heap (sendKcpMsg c m) = heap c"
  by (simp add: sendKcpMsg_def kcpUpdateManually_def)

lemma kcp_sent_sendKcpMsg [simp]: "kcp_sent (sendKcpMsg c m) = kcp_sent c @ [m]"
  by (simp add: sendKcpMsg_def kcpUpdateManually_def)

lemma tcp_frames:
  assumes "heap c p = Some s"
  shows "\<exists>c' frames. handleIncomingTCPMesasge c p msg = Inr c' \<and>
           kcp_sent c' = kcp_sent c @ frames \<and>
           concat (map (drop 4) frames) = msg \<and>
           list_all (\<lambda>f. f = kcpMsg_data (session_connIdx s) (drop 4 f) \<and>
                         0 < length (drop 4 f) \<and> length (drop 4 f) \<le> 65531) frames \<and>
           (msg = [] \<longrightarrow> frames = [])"
  using assms
proof (induction "length msg" arbitrary: c msg rule: less_induct)
  case less
  show ?case
  proof (cases "msg = []")
    case True
    then show ?thesis by (simp add: tcp_nil)
  next
    case False
    let ?n = "min maxMsgLen (length msg)"
    let ?f = "kcpMsg_data (session_connIdx s) (take ?n msg)"
    have pos: "0 < ?n" "?n \<le> 65531" using False by (simp_all add: maxMsgLen_def UINT16_MAX_def)
    have "length (drop ?n msg) < length msg"
      using False pos by simp
    from less.hyps [OF this, of "sendKcpMsg c ?f"] less.prems
    obtain c' frames where
      r: "handleIncomingTCPMesasge (sendKcpMsg c ?f) p (drop ?n msg) = Inr c'"
      and k: "kcp_sent c' = kcp_sent (sendKcpMsg c ?f) @ frames"
      and cc: "concat (map (drop 4) frames) = drop ?n msg"
      and al: "list_all (\<lambda>f. f = kcpMsg_data (session_connIdx s) (drop 4 f) \<and>
                         0 < length (drop 4 f) \<and> length (drop 4 f) \<le> 65531) frames"
      by auto
    have d4: "drop 4 ?f = take ?n msg"
      by (simp add: kcpMsg_data_def)
    have "handleIncomingTCPMesasge c p msg = Inr c'"
      using tcp_step [OF False less.prems] r by simp
    moreover have "kcp_sent c' = kcp_sent c @ (?f # frames)"
      using k by simp
    moreover have "concat (map (drop 4) (?f # frames)) = msg"
      using cc d4 by simp
    moreover have "list_all (\<lambda>f. f = kcpMsg_data (session_connIdx s) (drop 4 f) \<and>
                         0 < length (drop 4 f) \<and> length (drop 4 f) \<le> 65531) (?f # frames)"
      using al d4 pos by (simp add: min_absorb2)
    ultimately show ?thesis
      using False by blast
  qed
qed

text \<open>
  Claim C4. For a live session and any input \<open>msg\<close>, \<^verbatim>\<open>handleIncomingTCPMesasge\<close> returns;
  the frames it has appended to what was sent before are data frames for the index of
  the session, each with a payload of at least 1 and at most 65531 bytes; their
  payloads, in the order sent, make up \<open>msg\<close>; and for an empty \<open>msg\<close> nothing is sent.
\<close>

theorem tcp_chunking:
  assumes "heap c session = Some s"
  shows "case handleIncomingTCPMesasge c session msg of
           Inl f \<Rightarrow> False
         | Inr c' \<Rightarrow>
             take (length (kcp_sent c)) (kcp_sent c') = kcp_sent c \<and>
             concat (map (drop 4) (drop (length (kcp_sent c)) (kcp_sent c'))) = msg \<and>
             list_all (\<lambda>f. f = kcpMsg_data (session_connIdx s) (drop 4 f) \<and>
                           0 < length (drop 4 f) \<and> length (drop 4 f) \<le> 65531)
               (drop (length (kcp_sent c)) (kcp_sent c')) \<and>
             (msg = [] \<longrightarrow> kcp_sent c' = kcp_sent c)"
proof -
  obtain c' frames where "handleIncomingTCPMesasge c session msg = Inr c'"
    and "kcp_sent c' = kcp_sent c @ frames"
    and "concat (map (drop 4) frames) = msg"
    and "list_all (\<lambda>f. f = kcpMsg_data (session_connIdx s) (drop 4 f) \<and>
                         0 < length (drop 4 f) \<and> length (drop 4 f) \<le> 65531) frames"
    and "msg = [] \<longrightarrow> frames = []"
    using tcp_frames [OF assms, of msg] by blast
  then show ?thesis by simp
qed

lemma tcp_two_frames:
  "handleIncomingTCPMesasge example_client 0 (replicate 65532 7)
     = Inr (sendKcpMsg (sendKcpMsg example_client (kcpMsg_data 2 (replicate 65531 7)))
              (kcpMsg_data 2 [7]))"
proof -
  have h: "heap example_client 0 = Some (new_ClientTCPSession 2 7)"
    by (simp add: example_client_def new_Client_def)
  have i: "session_connIdx (new_ClientTCPSession 2 7) = 2"
    by (simp add: new_ClientTCPSession_def)
  have "handleIncomingTCPMesasge example_client 0 (replicate 65532 7)
      = handleIncomingTCPMesasge (sendKcpMsg example_client (kcpMsg_data 2 (replicate 65531 7))) 0 [7]"
    by (subst tcp_step [OF _ h]) (simp_all add: i maxMsgLen_def UINT16_MAX_def)
  also have "\<dots> = handleIncomingTCPMesasge
        (sendKcpMsg (sendKcpMsg example_client (kcpMsg_data 2 (replicate 65531 7))) (kcpMsg_data 2 [7])) 0 []"
    by (subst tcp_step [where s = "new_ClientTCPSession 2 7"]) (simp_all add: h i maxMsgLen_def UINT16_MAX_def)
  finally show ?thesis by (simp add: tcp_nil)
qed

text \<open>
  Witness for C4: 65532 bytes for the session with index 2 of the example client leave
  as two frames, with 65531 bytes and with 1 byte.
\<close>

theorem tcp_chunking_witness:
  "heap example_client 0 = Some (new_ClientTCPSession 2 7) \<and>
   handleIncomingTCPMesasge example_client 0 (replicate 65532 7)
     = Inr (sendKcpMsg (sendKcpMsg example_client (kcpMsg_data 2 (replicate 65531 7)))
              (kcpMsg_data 2 [7])) \<and>
   kcp_sent (sendKcpMsg (sendKcpMsg example_client (kcpMsg_data 2 (replicate 65531 7)))
              (kcpMsg_data 2 [7]))
     = [kcpMsg_data 2 (replicate 65531 7), kcpMsg_data 2 [7]] \<and>
   concat (map (drop 4) [kcpMsg_data 2 (replicate 65531 7), kcpMsg_data 2 [7]]) = replicate 65532 7"
proof -
  have h: "heap example_client 0 = Some (new_ClientTCPSession 2 7)"
    by (simp add: example_client_def new_Client_def)
  have k: "kcp_sent example_client = []"
    by (simp add: example_client_def new_Client_def)
  show ?thesis
    using tcp_chunking [OF h, of "replicate 65532 7"] h
    by (simp add: tcp_two_frames k)
qed

section \<open>Connection indices\<close>

lemma listenerCallback_result:
  "listenerCallback c fd =
     Inr (c\<lparr>static_connIdx := static_connIdx c + 1,
            heap := (heap c)(heap_next c \<mapsto>
                      setTimeout (new_ClientTCPSession (static_connIdx c + 1) fd)
                        (tcpReadTimeout c) (tcpWriteTimeout c)),
            heap_next := Suc (heap_next c),
            conns := map_insert (static_connIdx c + 1) (heap_next c) (conns c)\<rparr>)"
  by (simp add: listenerCallback_def addConnection_def Let_def setTimeout_def new_ClientTCPSession_def)

lemma accepts_counter:
  "\<exists>c'. accepts c fds = Inr c' \<and> static_connIdx c' = static_connIdx c + of_nat (length fds)"
proof (induction fds arbitrary: c)
  case Nil
  then show ?case by simp
next
  case (Cons fd fds)
  obtain c1 where c1: "listenerCallback c fd = Inr c1" "static_connIdx c1 = static_connIdx c + 1"
    by (simp add: listenerCallback_result)
  from Cons [of c1] c1 show ?case by (auto simp: algebra_simps)
qed

lemma accepts_timeouts:
  "accepts c fds = Inr c' \<Longrightarrow> tcpReadTimeout c' = tcpReadTimeout c \<and> tcpWriteTimeout c' = tcpWriteTimeout c"
proof (induction fds arbitrary: c)
  case Nil
  then show ?case by simp
next
  case (Cons fd fds)
  then show ?case
    by (simp add: listenerCallback_result)
qed

lemma map_find_map_insert_same: "map_find (map_insert k v m) k \<noteq> None"
  by (induction m) (auto simp: map_find_def)

lemma map_find_map_insert_fresh:
  "map_find m k = None \<Longrightarrow> map_find (map_insert k v m) k = Some v"
  by (induction m) (auto simp: map_find_def)

lemma set_map_insert: "set (map_insert k v m) \<subseteq> insert (k, v) (set m)"
  by (induction m) (auto split: if_splits)

text \<open>The first accept of a new client issues index 2.\<close>

lemma first_accept_index:
  "\<exists>c1. listenerCallback (new_Client conv rt wt) fd = Inr c1 \<and>
     static_connIdx c1 = 2 \<and> conns c1 = [(2, 0)]"
  by (simp add: listenerCallback_result new_Client_def)

text \<open>As long as the counter has not wrapped, no accept enters the key 0.\<close>

lemma accepts_no_key_zero:
  assumes "accepts c fds = Inr c'"
    and "map_find (conns c) 0 = None"
    and "unat (static_connIdx c) + length fds \<le> 65535"
  shows "map_find (conns c') 0 = None"
  using assms
proof (induction fds arbitrary: c)
  case Nil
  then show ?case by simp
next
  case (Cons fd fds)
  let ?k = "static_connIdx c + 1"
  let ?c1 = "c\<lparr>static_connIdx := ?k,
            heap := (heap c)(heap_next c \<mapsto>
                      setTimeout (new_ClientTCPSession ?k fd)
                        (tcpReadTimeout c) (tcpWriteTimeout c)),
            heap_next := Suc (heap_next c),
            conns := map_insert ?k (heap_next c) (conns c)\<rparr>"
  have lt: "unat (static_connIdx c) < 65535"
    using Cons.prems(3) by simp
  then have u: "unat ?k = unat (static_connIdx c) + 1"
    by (simp add: unat_word_ariths)
  then have nz: "?k \<noteq> 0"
    by (metis Suc_eq_plus1 nat.distinct(1) unat_0)
  have "map_find (conns ?c1) 0 = None"
  proof (rule ccontr)
    assume "map_find (conns ?c1) 0 \<noteq> None"
    then obtain p where "(0, p) \<in> set (map_insert ?k (heap_next c) (conns c))"
      by (auto simp: map_find_def dest: map_of_SomeD)
    then have "(0, p) \<in> set (conns c)"
      using set_map_insert [of ?k "heap_next c" "conns c"] nz by auto
    then show False
      using Cons.prems(2) by (auto simp: map_find_def map_of_eq_None_iff image_iff)
  qed
  moreover have "accepts ?c1 fds = Inr c'"
    using Cons.prems(1) by (simp add: listenerCallback_result)
  moreover have "unat (static_connIdx ?c1) + length fds \<le> 65535"
    using Cons.prems(3) u by simp
  ultimately show ?case
    using Cons.IH [of ?c1] by blast
qed

text \<open>
  Claim C5 after 65534 accepted connections of a new client: the counter stands at
  65535, and the next call of \<^verbatim>\<open>listenerCallback\<close> wraps it to 0, creates a session with
  index 0 and enters it into the table under the key 0, the value that marks control
  frames.
\<close>

theorem accepts_issue_index_zero:
  "\<exists>c' c''. accepts (new_Client conv rt wt) (replicate 65534 fd) = Inr c' \<and>
     static_connIdx c' = 65535 \<and>
     listenerCallback c' fd = Inr c'' \<and>
     static_connIdx c'' = KCP_MSG_CONNIDX_NONE \<and>
     heap c'' (heap_next c') = Some (setTimeout (new_ClientTCPSession KCP_MSG_CONNIDX_NONE fd) rt wt) \<and>
     map_find (conns c'') KCP_MSG_CONNIDX_NONE = Some (heap_next c')"
proof -
  obtain c' where c': "accepts (new_Client conv rt wt) (replicate 65534 fd) = Inr c'"
    and s: "static_connIdx c' = static_connIdx (new_Client conv rt wt) + of_nat (length (replicate 65534 fd))"
    using accepts_counter by blast
  have s': "static_connIdx c' = 65535"
    using s by (simp add: new_Client_def)
  let ?c'' = "c'\<lparr>static_connIdx := static_connIdx c' + 1,
            heap := (heap c')(heap_next c' \<mapsto>
                      setTimeout (new_ClientTCPSession (static_connIdx c' + 1) fd)
                        (tcpReadTimeout c') (tcpWriteTimeout c')),
            heap_next := Suc (heap_next c'),
            conns := map_insert (static_connIdx c' + 1) (heap_next c') (conns c')\<rparr>"
  have t: "tcpReadTimeout c' = rt" "tcpWriteTimeout c' = wt"
    using accepts_timeouts [OF c'] by (simp_all add: new_Client_def)
  have z: "static_connIdx c' + 1 = KCP_MSG_CONNIDX_NONE"
    by (simp add: s' KCP_MSG_CONNIDX_NONE_def)
  have "listenerCallback c' fd = Inr ?c''"
    by (rule listenerCallback_result)
  moreover have "static_connIdx ?c'' = KCP_MSG_CONNIDX_NONE"
    by (simp add: z)
  moreover have "heap ?c'' (heap_next c')
      = Some (setTimeout (new_ClientTCPSession KCP_MSG_CONNIDX_NONE fd) rt wt)"
    by (simp add: z t)
  moreover have "map_find (conns c') 0 = None"
    by (rule accepts_no_key_zero [OF c']) (simp_all add: new_Client_def map_find_def)
  then have "map_find (conns ?c'') KCP_MSG_CONNIDX_NONE = Some (heap_next c')"
    by (simp add: z map_find_map_insert_fresh KCP_MSG_CONNIDX_NONE_def)
  ultimately show ?thesis
    using c' s' by blast
qed

section \<open>The handshake\<close>

lemma le32_u32_of: "le32 (u32_of a b c d) = [a, b, c, d]"
  unfolding u32_of_def le32_def
  by (auto intro!: bit_word_eqI simp: bit_simps)

lemma u32_of_le32_bytes:
  "u32_of (ucast w) (ucast (drop_bit 8 w)) (ucast (drop_bit 16 w)) (ucast (drop_bit 24 w)) = w"
  unfolding u32_of_def
  apply (rule bit_word_eqI)
  subgoal for n by (cases "n < 8"; cases "n < 16"; cases "n < 24") (auto simp: bit_simps)
  done

lemma u32_of_eq_iff: "u32_of a b c d = w \<longleftrightarrow> [a, b, c, d] = le32 w"
proof
  assume "u32_of a b c d = w"
  then show "[a, b, c, d] = le32 w" using le32_u32_of [of a b c d] by simp
next
  assume "[a, b, c, d] = le32 w"
  then show "u32_of a b c d = w"
    using u32_of_le32_bytes [of w] by (simp add: le32_def)
qed

lemma length_le32 [simp]: "length (le32 w) = 4"
  by (simp add: le32_def)

lemma length_initKCPConvPkg [simp]: "length (initKCPConvPkg conv) = 12"
  by (simp add: initKCPConvPkg_def)

lemma list12:
  assumes "length (p :: 'a list) = 12"
  shows "p = [p ! 0, p ! 1, p ! 2, p ! 3] @ [p ! 4, p ! 5, p ! 6, p ! 7] @ [p ! 8, p ! 9, p ! 10, p ! 11]"
  using assms by (intro nth_equalityI) (auto simp: nth_Cons' less_Suc_eq numeral_eq_Suc)

lemma recvInitKCPConvPkg_iff:
  assumes "length p = 12"
  shows "fst (recvInitKCPConvPkg c p) \<longleftrightarrow> p = initKCPConvPkg (kcpConv c)"
proof -
  have "fst (recvInitKCPConvPkg c p) \<longleftrightarrow>
          [p ! 0, p ! 1, p ! 2, p ! 3] = le32 0 \<and> [p ! 4, p ! 5, p ! 6, p ! 7] = le32 (kcpConv c) \<and>
          [p ! 8, p ! 9, p ! 10, p ! 11] = le32 (kcpConv c + 1)"
    by (simp add: recvInitKCPConvPkg_def u32_of_eq_iff)
  also have "\<dots> \<longleftrightarrow> [p ! 0, p ! 1, p ! 2, p ! 3] @ [p ! 4, p ! 5, p ! 6, p ! 7] @ [p ! 8, p ! 9, p ! 10, p ! 11]
        = le32 0 @ le32 (kcpConv c) @ le32 (kcpConv c + 1)"
    by (simp add: le32_def)
  also have "\<dots> \<longleftrightarrow> p = initKCPConvPkg (kcpConv c)"
    using list12 [OF assms] by (simp add: initKCPConvPkg_def)
  finally show ?thesis .
qed

lemma snd_recvInitKCPConvPkg:
  "snd (recvInitKCPConvPkg c p) = (if fst (recvInitKCPConvPkg c p) then c\<lparr>isInitKCPConv := True\<rparr> else c)"
  by (simp add: recvInitKCPConvPkg_def)

lemma removeConnection_isInit:
  "removeConnection c p b = Inr c' \<Longrightarrow> isInitKCPConv c' = isInitKCPConv c"
  by (auto simp: removeConnection_def sendKcpCloseMsg_def sendKcpMsg_def kcpUpdateManually_def Let_def
      split: option.splits if_splits)

lemma handleKcpMsg_isInit:
  "handleKcpMsg c i d n = Inr c' \<Longrightarrow> isInitKCPConv c' = isInitKCPConv c"
  by (auto simp: handleKcpMsg_def sendData_def sendKcpCloseMsg_def sendKcpMsg_def
        kcpUpdateManually_def split: option.splits if_splits)

lemma handleKcpMsg_closeConn_isInit:
  "handleKcpMsg_closeConn c m = Inr c' \<Longrightarrow> isInitKCPConv c' = isInitKCPConv c"
  by (auto simp: handleKcpMsg_closeConn_def Let_def dest: removeConnection_isInit
      split: option.splits if_splits)

lemma map_sum_Pair_Inr: "map_sum id (Pair True) x = Inr (b, c') \<Longrightarrow> x = Inr c'"
  by (cases x) auto

lemma readKcpMsg_isInit:
  assumes "readKcpMsg c = Inr (b, c')"
  shows "isInitKCPConv c' = isInitKCPConv c"
proof (cases "frame_complete (kcpInBuf c)")
  case False
  then show ?thesis using assms by (simp add: readKcpMsg_unfold)
next
  case True
  let ?n = "frame_len (kcpInBuf c)"
  let ?c1 = "c\<lparr>kcpInBuf := drop ?n (kcpInBuf c)\<rparr>"
  have "c' = ?c1 \<or> (\<exists>m. handleKcpMsg_closeConn ?c1 m = Inr c')
          \<or> (\<exists>i d n. handleKcpMsg ?c1 i d n = Inr c')"
    using assms True
    by (auto simp: readKcpMsg_unfold Let_def dest!: map_sum_Pair_Inr
        split: option.splits if_splits)
  then show ?thesis
    using handleKcpMsg_isInit [of ?c1] handleKcpMsg_closeConn_isInit [of ?c1] by auto
qed

lemma readKcpMsg_loop_isInit:
  assumes "readKcpMsg_loop c = Some (Inr c')"
  shows "isInitKCPConv c' = isInitKCPConv c"
proof -
  have "case r of Inl f \<Rightarrow> True | Inr c' \<Rightarrow> isInitKCPConv c' = isInitKCPConv c"
    if "readKcpMsg_loop c = Some r" for r
  proof (rule readKcpMsg_loop.raw_induct
      [where P = "\<lambda>c r. case r of Inl f \<Rightarrow> True | Inr c' \<Rightarrow> isInitKCPConv c' = isInitKCPConv c",
        OF _ that])
    fix loop :: "Client \<Rightarrow> (fault + Client) option" and c r
    assume IH: "\<And>x y. loop x = Some y \<Longrightarrow>
                 (case y of Inl f \<Rightarrow> True | Inr c' \<Rightarrow> isInitKCPConv c' = isInitKCPConv x)"
      and step: "(case readKcpMsg c of Inl f \<Rightarrow> Some (Inl f)
                | Inr r \<Rightarrow> if fst r then loop (snd r) else Some (Inr (snd r))) = Some r"
    show "case r of Inl f \<Rightarrow> True | Inr c' \<Rightarrow> isInitKCPConv c' = isInitKCPConv c"
    proof (cases "readKcpMsg c")
      case (Inl f)
      then show ?thesis using step by auto
    next
      case (Inr br)
      obtain b c1 where br: "br = (b, c1)" by (cases br)
      have i: "isInitKCPConv c1 = isInitKCPConv c"
        using Inr br readKcpMsg_isInit by blast
      show ?thesis
      proof (cases b)
        case True
        then have "loop c1 = Some r" using step Inr br by simp
        from IH [OF this] i show ?thesis by (auto split: sum.splits)
      next
        case False
        then show ?thesis using step Inr br i by auto
      qed
    qed
  qed
  from this [OF assms] show ?thesis by simp
qed

lemma handleIncomingUDPMesasge_isInit:
  assumes "handleIncomingUDPMesasge c d r chunks = Some (Inr c')"
  shows "isInitKCPConv c' \<longleftrightarrow> isInitKCPConv c \<or> d = initKCPConvPkg (kcpConv c)"
proof (cases "length d = 12 \<and> fst (recvInitKCPConvPkg c d)")
  case True
  then have "c' = c\<lparr>isInitKCPConv := True\<rparr>" "d = initKCPConvPkg (kcpConv c)"
    using assms by (auto simp: handleIncomingUDPMesasge_def snd_recvInitKCPConvPkg recvInitKCPConvPkg_iff)
  then show ?thesis by simp
next
  case False
  then have ne: "d \<noteq> initKCPConvPkg (kcpConv c)"
    using recvInitKCPConvPkg_iff [of d c] by auto
  have "isInitKCPConv c' = isInitKCPConv c"
  proof (cases "r < 0")
    case True
    then show ?thesis using assms False by (auto simp: handleIncomingUDPMesasge_def)
  next
    case nr: False
    then obtain c2 where l: "readKcpMsg_loop (c\<lparr>kcpInBuf := kcpInBuf c @ concat chunks\<rparr>) = Some (Inr c2)"
      and c': "c' = kcpUpdateManually c2"
      using assms False
      by (auto simp: handleIncomingUDPMesasge_def split: option.splits sum.splits)
    from readKcpMsg_loop_isInit [OF l] c' show ?thesis
      by (simp add: kcpUpdateManually_def)
  qed
  then show ?thesis using ne by simp
qed

lemma handleIncomingUDPMesasge_handshake:
  "handleIncomingUDPMesasge c (initKCPConvPkg (kcpConv c)) r chunks = Some (Inr (c\<lparr>isInitKCPConv := True\<rparr>))"
  using recvInitKCPConvPkg_iff [of "initKCPConvPkg (kcpConv c)" c]
  by (simp add: handleIncomingUDPMesasge_def snd_recvInitKCPConvPkg)

text \<open>
  Claim C7, as stated, at a tick of the one-second timer 11 seconds after the first one:
  the first tick, at time 101, sets the start time and sends the datagram; at time 112
  no echo has arrived, yet the tick sends nothing: it clears \<open>running\<close> and leaves the
  loop.
\<close>

theorem checkInitKCP_timeout_counterexample:
  "\<not> isInitKCPConv (checkInitKCP (sendInitKCPConvPkg (new_Client 0x12345678 0 0)) 101) \<and>
   udp_sent (checkInitKCP (checkInitKCP (sendInitKCPConvPkg (new_Client 0x12345678 0 0)) 101) 112)
     = udp_sent (checkInitKCP (sendInitKCPConvPkg (new_Client 0x12345678 0 0)) 101) \<and>
   \<not> isInitKCPConv (checkInitKCP (checkInitKCP (sendInitKCPConvPkg (new_Client 0x12345678 0 0)) 101) 112) \<and>
   \<not> running (checkInitKCP (checkInitKCP (sendInitKCPConvPkg (new_Client 0x12345678 0 0)) 101) 112)"
  by (simp add: checkInitKCP_def sendInitKCPConvPkg_def new_Client_def exitLoop_def Let_def)

text \<open>
  Claim C7, amended. While the handshake is not complete: the datagram of twelve bytes
  \<open>00 00 00 00 | conv | conv + 1\<close> completes it; whenever the handling of a datagram
  returns, the flag is set if and only if the datagram was that one; a tick of the
  timer not later than 10 seconds after the first tick sends that same datagram again
  and changes nothing else; and a tick later than that sends nothing: it sets \<open>running\<close>
  to false and asks the event loop to exit.
\<close>

theorem handshake_until_timeout:
  assumes "\<not> isInitKCPConv c"
  shows "(d = initKCPConvPkg (kcpConv c) \<longrightarrow>
            handleIncomingUDPMesasge c d r chunks = Some (Inr (c\<lparr>isInitKCPConv := True\<rparr>)))
       \<and> (\<forall>c'. handleIncomingUDPMesasge c d r chunks = Some (Inr c') \<longrightarrow>
            (isInitKCPConv c' \<longleftrightarrow> d = initKCPConvPkg (kcpConv c)))
       \<and> (now \<le> (case static_startTime c of None \<Rightarrow> now | Some t \<Rightarrow> t) + 10 \<longrightarrow>
            checkInitKCP c now =
              c\<lparr>static_startTime := Some (case static_startTime c of None \<Rightarrow> now | Some t \<Rightarrow> t),
                udp_sent := udp_sent c @ [initKCPConvPkg (kcpConv c)]\<rparr>)
       \<and> initKCPConvPkg (kcpConv c) = [0, 0, 0, 0] @ le32 (kcpConv c) @ le32 (kcpConv c + 1)
       \<and> ((case static_startTime c of None \<Rightarrow> now | Some t \<Rightarrow> t) + 10 < now \<longrightarrow>
            checkInitKCP c now =
              c\<lparr>static_startTime := Some (case static_startTime c of None \<Rightarrow> now | Some t \<Rightarrow> t),
                running := False, loopexit_called := True\<rparr>)"
  using assms handleIncomingUDPMesasge_isInit [of c d r chunks]
    handleIncomingUDPMesasge_handshake [of c r chunks]
  by (auto simp: checkInitKCP_def Let_def sendInitKCPConvPkg_def initKCPConvPkg_def le32_def
        exitLoop_def)

text \<open>
  Witness for the amended C7: conversation id \<open>0x12345678\<close>, the echoed datagram
  \<open>00 00 00 00 78 56 34 12 79 56 34 12\<close>, the first tick at time 100, and a tick at
  time 112 of a client whose first tick was at time 101.
\<close>

theorem handshake_until_timeout_witness:
  "\<not> isInitKCPConv (new_Client 0x12345678 0 0) \<and>
   initKCPConvPkg 0x12345678 = [0, 0, 0, 0, 0x78, 0x56, 0x34, 0x12, 0x79, 0x56, 0x34, 0x12] \<and>
   handleIncomingUDPMesasge (new_Client 0x12345678 0 0)
       [0, 0, 0, 0, 0x78, 0x56, 0x34, 0x12, 0x79, 0x56, 0x34, 0x12] 0 []
     = Some (Inr ((new_Client 0x12345678 0 0)\<lparr>isInitKCPConv := True\<rparr>)) \<and>
   udp_sent (checkInitKCP (new_Client 0x12345678 0 0) 100)
     = [[0, 0, 0, 0, 0x78, 0x56, 0x34, 0x12, 0x79, 0x56, 0x34, 0x12]] \<and>
   \<not> isInitKCPConv ((new_Client 0x12345678 0 0)\<lparr>static_startTime := Some 101\<rparr>) \<and>
   (101 :: int) + 10 < 112 \<and>
   checkInitKCP ((new_Client 0x12345678 0 0)\<lparr>static_startTime := Some 101\<rparr>) 112
     = (new_Client 0x12345678 0 0)
         \<lparr>static_startTime := Some 101, running := False, loopexit_called := True\<rparr>"
proof -
  have n: "\<not> isInitKCPConv (new_Client 0x12345678 0 0)" "kcpConv (new_Client 0x12345678 0 0) = 0x12345678"
    "static_startTime (new_Client 0x12345678 0 0) = None" "udp_sent (new_Client 0x12345678 0 0) = []"
    by (simp_all add: new_Client_def)
  have p: "initKCPConvPkg 0x12345678 = [0, 0, 0, 0, 0x78, 0x56, 0x34, 0x12, 0x79, 0x56, 0x34, 0x12]"
    by (simp add: initKCPConvPkg_def le32_def)
  note t = handshake_until_timeout [OF n(1),
        of "[0, 0, 0, 0, 0x78, 0x56, 0x34, 0x12, 0x79, 0x56, 0x34, 0x12]" 0 "[]" 100]
  have m: "\<not> isInitKCPConv ((new_Client 0x12345678 0 0)\<lparr>static_startTime := Some 101\<rparr>)"
    by (simp add: new_Client_def)
  note u = handshake_until_timeout [OF m, of "[]" 0 "[]" 112]
  show ?thesis
    using t [THEN conjunct1] t [THEN conjunct2, THEN conjunct2, THEN conjunct1]
      u [THEN conjunct2, THEN conjunct2, THEN conjunct2, THEN conjunct2] n m
    by (simp add: p)
qed

section \<open>Shutdown\<close>

lemma stop_not_running: "\<not> running c \<Longrightarrow> stop c = Inr c"
  by (simp add: stop_def)

lemma stop_empty_table:
  "running c \<Longrightarrow> conns c = [] \<Longrightarrow>
   stop c = Inr (c\<lparr>running := False, listener_enabled := False, exitEvTimer := Some 3\<rparr>)"
  by (simp add: stop_def map_begin_def stop_loop.simps)

lemma stop_loop_erases_own_element:
  assumes "map_find (conns c) k = Some p" and "heap c p = Some s" and "session_connIdx s = k"
  shows "stop_loop (Some k) c = Inl InvalidIterator"
proof -
  obtain c' where r: "removeConnection c p True = Inr c'"
    and c': "conns c' = map_erase k (conns c)"
    using assms(2,3)
    by (simp add: removeConnection_def sendKcpCloseMsg_def sendKcpMsg_def kcpUpdateManually_def)
  have "map_find (conns c') k = None"
    by (simp add: c' map_find_map_erase)
  then show ?thesis
    using assms(1) r by (subst stop_loop.simps) simp
qed

lemma stop_nonempty_table:
  assumes "running c" and "conns c = (k, p) # m" and "heap c p = Some s" and "session_connIdx s = k"
  shows "stop c = Inl InvalidIterator"
proof -
  let ?c2 = "c\<lparr>running := False, listener_enabled := False\<rparr>"
  have "stop_loop (Some k) ?c2 = Inl InvalidIterator"
    using assms(2-4) by (intro stop_loop_erases_own_element [where p = p and s = s]) (simp_all add: map_find_def)
  then show ?thesis
    using assms(1,2) by (simp add: stop_def map_begin_def)
qed

lemma example_client_235_reachable:
  "(case accepts (new_Client 0x12345678 0 0) [7, 8, 9, 10] of
      Inl f \<Rightarrow> Inl f
    | Inr c \<Rightarrow> removeConnection c 2 True) = Inr example_client_235"
  by (auto simp: listenerCallback_result new_Client_def removeConnection_def setTimeout_def
        new_ClientTCPSession_def sendKcpCloseMsg_def sendKcpMsg_def kcpUpdateManually_def
        map_erase_def example_client_235_def fun_eq_iff)

text \<open>
  Claim C8 on the running client with the indices 2, 3 and 5 live: the loop of \<^verbatim>\<open>stop\<close>
  starts at the entry for index 2; its body, \<^verbatim>\<open>removeConnection\<close>, sends the CLOSE_CONN
  for index 2 and erases that very entry, and the loop then advances an iterator whose
  element is gone. \<^verbatim>\<open>stop\<close> does not get to the entries 3 and 5 nor to the timer in a
  defined way.
\<close>

theorem stop_invalidates_iterator:
  "running example_client_235 \<and>
   map_begin (conns example_client_235) = Some 2 \<and>
   removeConnection (example_client_235\<lparr>running := False, listener_enabled := False\<rparr>) 0 True
     = Inr (example_client_235
             \<lparr>running := False, listener_enabled := False,
              conns := [(3, 1), (5, 3)],
              heap := [1 \<mapsto> new_ClientTCPSession 3 8, 3 \<mapsto> new_ClientTCPSession 5 10],
              kcp_sent := [kcpMsg_closeConn 4, kcpMsg_closeConn 2], kcp_updates := 2\<rparr>) \<and>
   stop example_client_235 = Inl InvalidIterator"
proof -
  have s: "stop example_client_235 = Inl InvalidIterator"
    by (rule stop_nonempty_table [where k = 2 and p = 0 and s = "new_ClientTCPSession 2 7"])
       (simp_all add: example_client_235_def new_Client_def new_ClientTCPSession_def)
  have r: "running example_client_235" "map_begin (conns example_client_235) = Some 2"
    by (simp_all add: example_client_235_def new_Client_def map_begin_def)
  have "removeConnection (example_client_235\<lparr>running := False, listener_enabled := False\<rparr>) 0 True
     = Inr (example_client_235
             \<lparr>running := False, listener_enabled := False,
              conns := [(3, 1), (5, 3)],
              heap := [1 \<mapsto> new_ClientTCPSession 3 8, 3 \<mapsto> new_ClientTCPSession 5 10],
              kcp_sent := [kcpMsg_closeConn 4, kcpMsg_closeConn 2], kcp_updates := 2\<rparr>)"
    by (auto simp: removeConnection_def sendKcpCloseMsg_def sendKcpMsg_def kcpUpdateManually_def
          map_erase_def example_client_235_def new_Client_def new_ClientTCPSession_def fun_eq_iff)
  then show ?thesis
    using s r by (simp only: simp_thms)
qed

section \<open>The invariant of the connection table\<close>

text \<open>
  The hypotheses on the table in the theorems above (an entry points to a live session
  with the entry's key as index) hold in every client that was built by the constructor
  and changed by accepts, removals and inbound frames only: they follow from
  \<open>table_inv\<close>, which the constructor establishes and these operations keep.
\<close>

lemma table_inv_live: "table_inv c \<Longrightarrow> conns_live c"
  by (auto simp: table_inv_def conns_live_def list_all_iff split: option.splits)

lemma table_inv_entry:
  "table_inv c \<Longrightarrow> map_find (conns c) i = Some p \<Longrightarrow>
     \<exists>s. heap c p = Some s \<and> session_connIdx s = i"
  unfolding table_inv_def map_find_def list_all_iff
  by (auto dest!: map_of_SomeD split: option.splits)

lemma table_inv_new_Client: "table_inv (new_Client conv rt wt)"
  by (simp add: table_inv_def new_Client_def)

lemma table_inv_listenerCallback:
  assumes "table_inv c" and "listenerCallback c fd = Inr c'"
  shows "table_inv c'"
proof -
  let ?k = "static_connIdx c + 1"
  let ?s = "setTimeout (new_ClientTCPSession ?k fd) (tcpReadTimeout c) (tcpWriteTimeout c)"
  have c': "conns c' = map_insert ?k (heap_next c) (conns c)"
    "heap c' = (heap c)(heap_next c \<mapsto> ?s)" "heap_next c' = Suc (heap_next c)"
    using assms(2) by (auto simp: listenerCallback_result)
  have k: "session_connIdx ?s = ?k"
    by (simp add: setTimeout_def new_ClientTCPSession_def)
  have f: "\<And>p. heap_next c \<le> p \<Longrightarrow> heap c p = None"
    using assms(1) by (simp add: table_inv_def)
  have "case heap c' (snd e) of None \<Rightarrow> False | Some s \<Rightarrow> session_connIdx s = fst e"
    if e: "e \<in> set (conns c')" for e
  proof (cases "e = (?k, heap_next c)")
    case True
    then show ?thesis by (simp add: c' k)
  next
    case False
    then have m: "e \<in> set (conns c)"
      using e set_map_insert [of ?k "heap_next c" "conns c"] by (auto simp: c')
    then have o: "case heap c (snd e) of None \<Rightarrow> False | Some s \<Rightarrow> session_connIdx s = fst e"
      using assms(1) by (simp add: table_inv_def list_all_iff)
    then have "snd e \<noteq> heap_next c"
      using f [of "heap_next c"] by (auto split: option.splits)
    then show ?thesis using o by (simp add: c')
  qed
  moreover have "\<And>p. heap_next c' \<le> p \<Longrightarrow> heap c' p = None"
    using f by (simp add: c')
  ultimately show ?thesis
    by (simp add: table_inv_def list_all_iff)
qed

lemma table_inv_removeConnection:
  assumes "table_inv c" and "removeConnection c p b = Inr c'"
  shows "table_inv c'"
proof -
  obtain s where s: "heap c p = Some s"
    using assms(2) by (auto simp: removeConnection_def split: option.splits)
  have c': "conns c' = map_erase (session_connIdx s) (conns c)" "heap c' = (heap c)(p := None)"
    "heap_next c' = heap_next c"
    using assms(2) s
    by (auto simp: removeConnection_def sendKcpCloseMsg_def sendKcpMsg_def kcpUpdateManually_def
          Let_def split: if_splits)
  have "case heap c' (snd e) of None \<Rightarrow> False | Some s \<Rightarrow> session_connIdx s = fst e"
    if e: "e \<in> set (conns c')" for e
  proof -
    have m: "e \<in> set (conns c)" and ne: "fst e \<noteq> session_connIdx s"
      using e by (auto simp: c' map_erase_def)
    have o: "case heap c (snd e) of None \<Rightarrow> False | Some s \<Rightarrow> session_connIdx s = fst e"
      using assms(1) m by (simp add: table_inv_def list_all_iff)
    then have "snd e \<noteq> p"
      using s ne by auto
    then show ?thesis using o by (simp add: c')
  qed
  moreover have "\<And>q. heap_next c' \<le> q \<Longrightarrow> heap c' q = None"
    using assms(1) by (simp add: c' table_inv_def)
  ultimately show ?thesis
    by (simp add: table_inv_def list_all_iff)
qed

lemma table_inv_sendData:
  assumes "table_inv c" and "sendData c p d n = Inr c'"
  shows "table_inv c'"
proof (cases "length d < n")
  case True
  then have "c' = c"
    using assms(2) by (auto simp: sendData_def split: option.splits)
  then show ?thesis using assms(1) by simp
next
  case False
  obtain s where s: "heap c p = Some s"
    using assms(2) by (auto simp: sendData_def split: option.splits)
  have c': "conns c' = conns c" "heap_next c' = heap_next c"
    "heap c' = (heap c)(p \<mapsto> s\<lparr>bev_output := bev_output s @ take n d\<rparr>)"
    using assms(2) s False by (auto simp: sendData_def)
  have f: "\<And>q. heap_next c \<le> q \<Longrightarrow> heap c q = None"
    using assms(1) by (simp add: table_inv_def)
  have "\<not> heap_next c \<le> p"
    using f [of p] s by auto
  then have "\<And>q. heap_next c' \<le> q \<Longrightarrow> heap c' q = None"
    using f by (simp add: c')
  moreover have "case heap c' (snd e) of None \<Rightarrow> False | Some s \<Rightarrow> session_connIdx s = fst e"
    if e: "e \<in> set (conns c')" for e
  proof -
    have "case heap c (snd e) of None \<Rightarrow> False | Some s \<Rightarrow> session_connIdx s = fst e"
      using assms(1) e by (simp add: table_inv_def list_all_iff c')
    then show ?thesis
      using s by (cases "snd e = p") (simp_all add: c')
  qed
  ultimately show ?thesis
    by (simp add: table_inv_def list_all_iff)
qed

lemma table_inv_sendKcpMsg [simp]: "table_inv (sendKcpMsg c m) = table_inv c"
  by (simp add: table_inv_def sendKcpMsg_def kcpUpdateManually_def)

lemma table_inv_kcpInBuf [simp]: "table_inv (c\<lparr>kcpInBuf := b\<rparr>) = table_inv c"
  by (simp add: table_inv_def)

lemma table_inv_handleKcpMsg:
  assumes "table_inv c" and "handleKcpMsg c i d n = Inr c'"
  shows "table_inv c'"
proof (cases "map_find (conns c) i")
  case None
  then have "c' = sendKcpCloseMsg c i"
    using assms(2) by (simp add: handleKcpMsg_def)
  then show ?thesis
    using assms(1) by (simp add: sendKcpCloseMsg_def)
next
  case (Some p)
  then have "sendData c p d n = Inr c'"
    using assms(2) by (simp add: handleKcpMsg_def)
  then show ?thesis
    using assms(1) by (rule table_inv_sendData [rotated])
qed

lemma table_inv_handleKcpMsg_closeConn:
  assumes "table_inv c" and "handleKcpMsg_closeConn c m = Inr c'"
  shows "table_inv c'"
proof -
  have "c' = c \<or> (\<exists>p. removeConnection c p False = Inr c')"
    using assms(2)
    by (auto simp: handleKcpMsg_closeConn_def Let_def split: option.splits)
  then show ?thesis
    using assms(1) table_inv_removeConnection [of c _ False c'] by auto
qed

lemma table_inv_readKcpMsg:
  assumes "table_inv c" and "readKcpMsg c = Inr (b, c')"
  shows "table_inv c'"
proof (cases "frame_complete (kcpInBuf c)")
  case False
  then show ?thesis using assms by (simp add: readKcpMsg_unfold)
next
  case True
  let ?c1 = "c\<lparr>kcpInBuf := drop (frame_len (kcpInBuf c)) (kcpInBuf c)\<rparr>"
  have "c' = ?c1 \<or> (\<exists>m. handleKcpMsg_closeConn ?c1 m = Inr c')
          \<or> (\<exists>i d n. handleKcpMsg ?c1 i d n = Inr c')"
    using assms(2) True
    by (auto simp: readKcpMsg_unfold Let_def dest!: map_sum_Pair_Inr
        split: option.splits if_splits)
  moreover have "table_inv ?c1"
    using assms(1) by simp
  ultimately show ?thesis
    by (blast intro: table_inv_handleKcpMsg table_inv_handleKcpMsg_closeConn)
qed

lemma table_inv_example_client: "table_inv example_client"
  using table_inv_listenerCallback [OF table_inv_new_Client example_client_accept] .

lemma table_inv_accepts:
  "table_inv c \<Longrightarrow> accepts c fds = Inr c' \<Longrightarrow> table_inv c'"
proof (induction fds arbitrary: c)
  case Nil
  then show ?case by simp
next
  case (Cons fd fds)
  obtain c1 where c1: "listenerCallback c fd = Inr c1"
    by (simp add: listenerCallback_result)
  then have "table_inv c1"
    using Cons.prems(1) by (rule table_inv_listenerCallback [rotated])
  then show ?case
    using Cons.IH [of c1] Cons.prems(2) c1 by simp
qed

end
